theory Spec2Isabelle
  imports Main "HOL-Library.List_Lexorder"
begin

text \<open>
  A shallow embedding of the placeholder engine of the legal document assistant: the
  extraction of placeholders from a text, the filling of a content with their values and
  the two validators (documentParser.ts, documentDownload.ts), the heading heuristic of
  the renderer (documentDownload.ts), the highlight view of the preview component and the
  upload check (apiService.ts).

  The functions are translated one by one, under their names. What they take from the
  host is an argument of the model: the identifiers that \<open>generateId\<close> draws from the clock
  and the random number generator, the collation behind \<open>localeCompare\<close>, and the parsers
  behind \<open>Number\<close> and \<open>Date\<close>. The regular expressions are data, matched by one
  backtracking matcher; the result of a function that builds or runs a regular expression
  is an option, and \<open>None\<close> says that the call does not return a value.
\<close>

section \<open>JavaScript strings\<close>

text \<open>
  A JavaScript string is a sequence of 16-bit code units. The strings of the model are
  over the code units from 0 to 255 (ASCII and Latin-1), \<open>Lat c\<close> for the code unit of the
  number of \<open>c\<close>, and over three more, which the case conversions of Latin-1 text reach:
  \<open>U+0178\<close>, the upper case of \<open>0xFF\<close>, \<open>U+039C\<close>, the upper case of the micro sign
  \<open>0xB5\<close>, and \<open>U+03BC\<close>, the lower case of \<open>U+039C\<close>. On these code units the functions
  below are the functions of JavaScript; a text with any other code unit is not a value of
  the type. \<open>js\<close> turns a HOL string literal into a string of the model.
\<close>

datatype code_unit = Lat char | U0178 | U039C | U03BC

type_synonym jstring = "code_unit list"

abbreviation js :: "string \<Rightarrow> jstring" where
  "js s \<equiv> map Lat s"

fun codeOf :: "code_unit \<Rightarrow> nat" where
  "codeOf (Lat c) = of_char c"
| "codeOf U0178 = 0x178"
| "codeOf U039C = 0x39C"
| "codeOf U03BC = 0x3BC"

text \<open>
  The white space of \<open>trim\<close> and of the class \<open>\s\<close>: TAB, LF, VT, FF, CR, SPACE and the
  no-break space; the line terminators that \<open>.\<close> does not match: LF and CR.
\<close>

definition isWhiteSpace :: "code_unit \<Rightarrow> bool" where
  "isWhiteSpace c = (c \<in> set (js [CHR 0x09, CHR 0x0A, CHR 0x0B, CHR 0x0C, CHR 0x0D, CHR 0x20, CHR 0xA0]))"

definition isLineTerminator :: "code_unit \<Rightarrow> bool" where
  "isLineTerminator c = (c = Lat CHR 0x0A \<or> c = Lat CHR 0x0D)"

definition inRange :: "code_unit \<Rightarrow> code_unit \<Rightarrow> code_unit \<Rightarrow> bool" where
  "inRange lo hi c = (codeOf lo \<le> codeOf c \<and> codeOf c \<le> codeOf hi)"

text \<open>
  The letters that have another case, in pairs: \<open>A\<close>-\<open>Z\<close>, \<open>0xC0\<close>-\<open>0xDE\<close> without the
  multiplication sign \<open>0xD7\<close>, \<open>U+0178\<close> and \<open>U+039C\<close>, each above its lower case.
\<close>

definition upperLetters :: jstring where
  "upperLetters =
     js ''ABCDEFGHIJKLMNOPQRSTUVWXYZ''
     @ js [CHR 0xC0, CHR 0xC1, CHR 0xC2, CHR 0xC3, CHR 0xC4, CHR 0xC5, CHR 0xC6, CHR 0xC7, CHR 0xC8, CHR 0xC9, CHR 0xCA, CHR 0xCB, CHR 0xCC, CHR 0xCD, CHR 0xCE, CHR 0xCF, CHR 0xD0, CHR 0xD1, CHR 0xD2, CHR 0xD3, CHR 0xD4, CHR 0xD5, CHR 0xD6, CHR 0xD8, CHR 0xD9, CHR 0xDA, CHR 0xDB, CHR 0xDC, CHR 0xDD, CHR 0xDE]
     @ [U0178, U039C]"

definition lowerLetters :: jstring where
  "lowerLetters =
     js ''abcdefghijklmnopqrstuvwxyz''
     @ js [CHR 0xE0, CHR 0xE1, CHR 0xE2, CHR 0xE3, CHR 0xE4, CHR 0xE5, CHR 0xE6, CHR 0xE7, CHR 0xE8, CHR 0xE9, CHR 0xEA, CHR 0xEB, CHR 0xEC, CHR 0xED, CHR 0xEE, CHR 0xEF, CHR 0xF0, CHR 0xF1, CHR 0xF2, CHR 0xF3, CHR 0xF4, CHR 0xF5, CHR 0xF6, CHR 0xF8, CHR 0xF9, CHR 0xFA, CHR 0xFB, CHR 0xFC, CHR 0xFD, CHR 0xFE]
     @ [Lat CHR 0xFF, U03BC]"

text \<open>
  \<open>s.toLowerCase()\<close> and \<open>s.toUpperCase()\<close>, code unit by code unit. The upper case of
  the sharp s \<open>0xDF\<close> is \<open>SS\<close>, that of the micro sign \<open>0xB5\<close> is \<open>U+039C\<close>.
\<close>

definition toLowerChar :: "code_unit \<Rightarrow> code_unit" where
  "toLowerChar c = (case map_of (zip upperLetters lowerLetters) c of None \<Rightarrow> c | Some l \<Rightarrow> l)"

definition toUpperChar :: "code_unit \<Rightarrow> jstring" where
  "toUpperChar c =
     (if c = Lat CHR 0xDF then js ''SS''
      else if c = Lat CHR 0xB5 then [U039C]
      else (case map_of (zip lowerLetters upperLetters) c of None \<Rightarrow> [c] | Some u \<Rightarrow> [u]))"

definition toLowerCase :: "jstring \<Rightarrow> jstring" where
  "toLowerCase s = map toLowerChar s"

definition toUpperCase :: "jstring \<Rightarrow> jstring" where
  "toUpperCase s = concat (map toUpperChar s)"

text \<open>\<open>s.trim()\<close>: the white space at both ends is removed.\<close>

definition str_trim :: "jstring \<Rightarrow> jstring" where
  "str_trim s = rev (dropWhile isWhiteSpace (rev (dropWhile isWhiteSpace s)))"

text \<open>\<open>s.includes(sub)\<close>: \<open>sub\<close> occurs in \<open>s\<close> as a contiguous substring.\<close>

fun isPrefixOf :: "jstring \<Rightarrow> jstring \<Rightarrow> bool" where
  "isPrefixOf [] s = True"
| "isPrefixOf (p # ps) [] = False"
| "isPrefixOf (p # ps) (c # cs) = (p = c \<and> isPrefixOf ps cs)"

fun str_includes :: "jstring \<Rightarrow> jstring \<Rightarrow> bool" where
  "str_includes [] sub = (sub = [])"
| "str_includes (c # cs) sub = (isPrefixOf sub (c # cs) \<or> str_includes cs sub)"

text \<open>
  \<open>s.split(sep)\<close> for a separator of one code unit: the pieces between the separators,
  the empty ones too, and one empty piece for the empty string.
\<close>

fun str_split :: "code_unit \<Rightarrow> jstring \<Rightarrow> jstring list" where
  "str_split sep [] = [[]]"
| "str_split sep (c # cs) =
     (if c = sep then [] # str_split sep cs
      else (case str_split sep cs of
              [] \<Rightarrow> [[c]]
            | w # ws \<Rightarrow> (c # w) # ws))"

text \<open>\<open>parts.join(sep)\<close>.\<close>

fun str_join :: "jstring \<Rightarrow> jstring list \<Rightarrow> jstring" where
  "str_join sep [] = []"
| "str_join sep [w] = w"
| "str_join sep (w # v # ws) = w @ sep @ str_join sep (v # ws)"

section \<open>Regular expressions\<close>

text \<open>
  The regular expressions of the sources are sequences of character classes, each taken
  once or repeated greedily (\<open>+\<close>, \<open>*\<close>), between optional anchors, with at most one
  capture group. A pattern is the list of its atoms; a regular expression is the pattern
  and the atoms \<open>i..<j\<close> that its capture group encloses.
\<close>

datatype citem =
    Ch code_unit          \<comment> \<open>one code unit\<close>
  | Range code_unit code_unit  \<comment> \<open>\<open>a-z\<close>\<close>
  | ClassS                \<comment> \<open>\<open>\s\<close>\<close>
  | ClassD                \<comment> \<open>\<open>\d\<close>\<close>

datatype cset =
    In "citem list"       \<comment> \<open>\<open>[...]\<close>\<close>
  | NotIn "citem list"    \<comment> \<open>\<open>[^...]\<close>\<close>
  | Dot                   \<comment> \<open>\<open>.\<close>: any code unit but a line terminator\<close>

datatype atom =
    One cset
  | Plus cset
  | Star cset
  | Bol                   \<comment> \<open>\<open>^\<close>, no multiline flag\<close>
  | Eol                   \<comment> \<open>\<open>$\<close>, no multiline flag\<close>

abbreviation Lit :: "code_unit \<Rightarrow> atom" where
  "Lit c \<equiv> One (In [Ch c])"

fun citem_matches :: "citem \<Rightarrow> code_unit \<Rightarrow> bool" where
  "citem_matches (Ch a) c = (c = a)"
| "citem_matches (Range lo hi) c = inRange lo hi c"
| "citem_matches ClassS c = isWhiteSpace c"
| "citem_matches ClassD c = inRange (Lat CHR ''0'') (Lat CHR ''9'') c"

fun cset_matches :: "cset \<Rightarrow> code_unit \<Rightarrow> bool" where
  "cset_matches (In items) c = list_ex (\<lambda>i. citem_matches i c) items"
| "cset_matches (NotIn items) c = (\<not> list_ex (\<lambda>i. citem_matches i c) items)"
| "cset_matches Dot c = (\<not> isLineTerminator c)"

text \<open>
  Backtracking over the length of a greedy repetition: \<open>backtrack f lo n\<close> is the first
  success among \<open>f n\<close>, \<open>f (n - 1)\<close>, ..., \<open>f lo\<close>.
\<close>

fun backtrack :: "(nat \<Rightarrow> 'a option) \<Rightarrow> nat \<Rightarrow> nat \<Rightarrow> 'a option" where
  "backtrack f lo 0 = (if lo = 0 then f 0 else None)"
| "backtrack f lo (Suc k) =
     (if Suc k < lo then None
      else (case f (Suc k) of
              Some r \<Rightarrow> Some r
            | None \<Rightarrow> backtrack f lo k))"

text \<open>
  \<open>matchHere atoms atStart s\<close> matches the pattern at the front of \<open>s\<close>; \<open>atStart\<close> tells
  whether this is index 0 of the subject. The result is the text each atom matched.
\<close>

fun matchHere :: "atom list \<Rightarrow> bool \<Rightarrow> jstring \<Rightarrow> jstring list option" where
  "matchHere [] atStart s = Some []"
| "matchHere (Bol # rest) atStart s =
     (if atStart then map_option (\<lambda>r. [] # r) (matchHere rest atStart s) else None)"
| "matchHere (Eol # rest) atStart s =
     (if s = [] then map_option (\<lambda>r. [] # r) (matchHere rest atStart s) else None)"
| "matchHere (One cs # rest) atStart s =
     (case s of
        [] \<Rightarrow> None
      | c # s' \<Rightarrow>
          if cset_matches cs c then map_option (\<lambda>r. [c] # r) (matchHere rest False s')
          else None)"
| "matchHere (Plus cs # rest) atStart s =
     backtrack (\<lambda>k. map_option (\<lambda>r. take k s # r) (matchHere rest False (drop k s)))
       1 (length (takeWhile (cset_matches cs) s))"
| "matchHere (Star cs # rest) atStart s =
     backtrack (\<lambda>k. map_option (\<lambda>r. take k s # r) (matchHere rest (atStart \<and> k = 0) (drop k s)))
       0 (length (takeWhile (cset_matches cs) s))"

record regex =
  atoms :: "atom list"
  capture :: "(nat \<times> nat) option"

record rmatch =
  whole :: jstring            \<comment> \<open>\<open>match[0]\<close>\<close>
  group1 :: "jstring option"  \<comment> \<open>\<open>match[1]\<close>, \<open>None\<close> when the pattern has no group\<close>

definition mkMatch :: "regex \<Rightarrow> jstring list \<Rightarrow> rmatch" where
  "mkMatch re spans =
     \<lparr>whole = concat spans,
      group1 = map_option (\<lambda>(i, j). concat (take (j - i) (drop i spans))) (capture re)\<rparr>"

text \<open>\<open>re.test(s)\<close> without the global flag: a match at some index of \<open>s\<close>.\<close>

fun searchFrom :: "atom list \<Rightarrow> bool \<Rightarrow> jstring \<Rightarrow> bool" where
  "searchFrom ats atStart [] = (matchHere ats atStart [] \<noteq> None)"
| "searchFrom ats atStart (c # cs) =
     (matchHere ats atStart (c # cs) \<noteq> None \<or> searchFrom ats False cs)"

definition regex_test :: "regex \<Rightarrow> jstring \<Rightarrow> bool" where
  "regex_test re s = searchFrom (atoms re) True s"

lemma backtrack_Some:
  "backtrack f lo n = Some r \<Longrightarrow> \<exists>k. lo \<le> k \<and> k \<le> n \<and> f k = Some r"
proof (induction n)
  case 0
  then show ?case by (auto split: if_splits)
next
  case (Suc n)
  show ?case
  proof (cases "f (Suc n)")
    case None
    with Suc.prems have "backtrack f lo n = Some r"
      by (auto split: if_splits)
    from Suc.IH [OF this] show ?thesis
      using le_Suc_eq by blast
  next
    case (Some a)
    with Suc.prems have "lo \<le> Suc n" and "f (Suc n) = Some r"
      by (auto split: if_splits)
    then show ?thesis by blast
  qed
qed

lemma matchHere_prefix:
  "matchHere ats atStart s = Some spans \<Longrightarrow> s = concat spans @ drop (length (concat spans)) s"
proof (induction ats atStart s arbitrary: spans rule: matchHere.induct)
  case (1 atStart s)
  then show ?case by simp
next
  case (2 rest atStart s)
  then show ?case by (auto split: if_splits)
next
  case (3 rest atStart s)
  then show ?case by (auto split: if_splits)
next
  case (4 cs rest atStart s)
  then show ?case by (auto split: list.splits if_splits)
next
  case (5 cs rest atStart s)
  from "5.prems" obtain k r where k: "matchHere rest False (drop k s) = Some r"
    and sp: "spans = take k s # r" and kn: "k \<le> length (takeWhile (cset_matches cs) s)"
    by (auto dest!: backtrack_Some)
  have kl: "k \<le> length s"
    using kn length_takeWhile_le [of "cset_matches cs" s] by linarith
  from "5.IH" [OF k] have "drop k s = concat r @ drop (length (concat r)) (drop k s)" .
  then have "take k s @ drop k s = take k s @ concat r @ drop (length (concat r) + k) s"
    by simp
  moreover have "length (concat spans) = k + length (concat r)"
    using sp kl by simp
  ultimately show ?case
    using sp by (simp add: add.commute)
next
  case (6 cs rest atStart s)
  from "6.prems" obtain k r where k: "matchHere rest (atStart \<and> k = 0) (drop k s) = Some r"
    and sp: "spans = take k s # r" and kn: "k \<le> length (takeWhile (cset_matches cs) s)"
    by (auto dest!: backtrack_Some)
  have kl: "k \<le> length s"
    using kn length_takeWhile_le [of "cset_matches cs" s] by linarith
  from "6.IH" [OF k] have "drop k s = concat r @ drop (length (concat r)) (drop k s)" .
  then have "take k s @ drop k s = take k s @ concat r @ drop (length (concat r) + k) s"
    by simp
  moreover have "length (concat spans) = k + length (concat r)"
    using sp kl by simp
  ultimately show ?case
    using sp by (simp add: add.commute)
qed

lemma matchHere_nonempty:
  assumes "matchHere ats atStart s = Some spans" and "concat spans \<noteq> []"
  shows "length s - length (concat spans) < length s"
proof -
  from matchHere_prefix [OF assms(1)]
  have "length s = length (concat spans) + length (drop (length (concat spans)) s)"
    by (metis length_append)
  moreover have "0 < length (concat spans)"
    using assms(2) by (metis length_greater_0_conv)
  ultimately show ?thesis by linarith
qed

text \<open>
  The loop \<open>while ((match = re.exec(s)) !== null) { ... }\<close> over a regular expression with
  the global flag: the successive matches, each search starting where the last match
  ended. After an empty match \<open>lastIndex\<close> does not move and the loop finds the same match
  for ever: the result is \<open>None\<close>.
\<close>

function execLoop :: "regex \<Rightarrow> bool \<Rightarrow> jstring \<Rightarrow> rmatch list option" where
  "execLoop re atStart s =
     (case matchHere (atoms re) atStart s of
        Some spans \<Rightarrow>
          if concat spans = [] then None
          else map_option (\<lambda>ms. mkMatch re spans # ms)
                 (execLoop re False (drop (length (concat spans)) s))
      | None \<Rightarrow>
          (case s of
             [] \<Rightarrow> Some []
           | c # s' \<Rightarrow> execLoop re False s'))"
  by pat_completeness auto
termination
  by (relation "measure (\<lambda>(re, atStart, s). length s)") (auto simp del: concat_eq_Nil_conv intro: matchHere_nonempty)

declare execLoop.simps [simp del]

text \<open>
  The replacement text of \<open>String.prototype.replace\<close> (GetSubstitution of ECMAScript):
  \<open>$$\<close> is a dollar sign, \<open>$&\<close> the match, \<open>$`\<close> the text before it, \<open>$'\<close> the text
  after it, \<open>$n\<close> and \<open>$nn\<close> the capture of that number when the pattern has one; any
  other code unit stands for itself.
\<close>

definition isDigit :: "code_unit \<Rightarrow> bool" where
  "isDigit c = inRange (Lat CHR ''0'') (Lat CHR ''9'') c"

definition digitVal :: "code_unit \<Rightarrow> nat" where
  "digitVal c = codeOf c - 48"

fun getSubstitution :: "jstring \<Rightarrow> jstring \<Rightarrow> jstring \<Rightarrow> jstring list \<Rightarrow> jstring \<Rightarrow> jstring" where
  "getSubstitution matched pre after caps [] = []"
| "getSubstitution matched pre after caps [c] = [c]"
| "getSubstitution matched pre after caps (c # d # r) =
     (if c \<noteq> Lat CHR ''$'' then c # getSubstitution matched pre after caps (d # r)
      else if d = Lat CHR ''$'' then Lat CHR ''$'' # getSubstitution matched pre after caps r
      else if d = Lat CHR ''&'' then matched @ getSubstitution matched pre after caps r
      else if d = Lat CHR 0x60 then pre @ getSubstitution matched pre after caps r
      else if d = Lat CHR 0x27 then after @ getSubstitution matched pre after caps r
      else if isDigit d then
        (case r of
           e # r' \<Rightarrow>
             if isDigit e \<and> 10 * digitVal d + digitVal e \<le> length caps then
               (if 1 \<le> 10 * digitVal d + digitVal e
                then caps ! (10 * digitVal d + digitVal e - 1) @ getSubstitution matched pre after caps r'
                else c # d # e # getSubstitution matched pre after caps r')
             else if 1 \<le> digitVal d \<and> digitVal d \<le> length caps
               then caps ! (digitVal d - 1) @ getSubstitution matched pre after caps r
               else c # d # getSubstitution matched pre after caps r
         | [] \<Rightarrow>
             if 1 \<le> digitVal d \<and> digitVal d \<le> length caps
             then caps ! (digitVal d - 1)
             else [c, d])
      else c # getSubstitution matched pre after caps (d # r))"

definition captures :: "rmatch \<Rightarrow> jstring list" where
  "captures m = (case group1 m of None \<Rightarrow> [] | Some g \<Rightarrow> [g])"

text \<open>
  \<open>s.replace(re, repl)\<close> for a regular expression with the global flag. \<open>pre\<close> is the
  part of the subject already passed. After an empty match the search moves on by one
  code unit.
\<close>

definition substitution :: "regex \<Rightarrow> jstring list \<Rightarrow> jstring \<Rightarrow> jstring \<Rightarrow> jstring \<Rightarrow> jstring" where
  "substitution re spans pre s repl =
     getSubstitution (concat spans) pre (drop (length (concat spans)) s)
       (captures (mkMatch re spans)) repl"

function replaceLoop :: "regex \<Rightarrow> jstring \<Rightarrow> jstring \<Rightarrow> jstring \<Rightarrow> jstring" where
  "replaceLoop re repl pre s =
     (case matchHere (atoms re) (pre = []) s of
        Some spans \<Rightarrow>
          if concat spans = [] then
            (case s of
               [] \<Rightarrow> substitution re spans pre s repl
             | c # s' \<Rightarrow> substitution re spans pre s repl @ c # replaceLoop re repl (pre @ [c]) s')
          else substitution re spans pre s repl
                 @ replaceLoop re repl (pre @ concat spans) (drop (length (concat spans)) s)
      | None \<Rightarrow>
          (case s of
             [] \<Rightarrow> []
           | c # s' \<Rightarrow> c # replaceLoop re repl (pre @ [c]) s'))"
  by pat_completeness auto
termination
  by (relation "measure (\<lambda>(re, repl, pre, s). length s)") (auto simp del: concat_eq_Nil_conv intro: matchHere_nonempty)

declare replaceLoop.simps [simp del]

definition str_replace :: "jstring \<Rightarrow> regex \<Rightarrow> jstring \<Rightarrow> jstring" where
  "str_replace s re repl = replaceLoop re repl [] s"

text \<open>
  \<open>new RegExp(source, "g")\<close> for the sources this program builds: a sequence of pattern
  characters and of escaped syntax characters, as a whole or inside one capture group.
  \<open>None\<close> stands for every other source (a pattern outside this fragment, or a
  SyntaxError).
\<close>

definition isSyntaxChar :: "code_unit \<Rightarrow> bool" where
  "isSyntaxChar c = (c \<in> set (js ''^$.*+?()[]{}|'' @ [Lat CHR 0x5C]))"

fun parseLiterals :: "jstring \<Rightarrow> (atom list \<times> jstring) option" where
  "parseLiterals [] = Some ([], [])"
| "parseLiterals [c] =
     (if c = Lat CHR '')'' then Some ([], [c])
      else if isSyntaxChar c then None
      else Some ([Lit c], []))"
| "parseLiterals (c # d # r) =
     (if c = Lat CHR 0x5C then
        (if isSyntaxChar d \<or> d = Lat CHR ''/''
         then map_option (\<lambda>(ats, rest). (Lit d # ats, rest)) (parseLiterals r)
         else None)
      else if c = Lat CHR '')'' then Some ([], c # d # r)
      else if isSyntaxChar c then None
      else map_option (\<lambda>(ats, rest). (Lit c # ats, rest)) (parseLiterals (d # r)))"

definition newRegExp :: "jstring \<Rightarrow> regex option" where
  "newRegExp source =
     (case source of
        [] \<Rightarrow> Some \<lparr>atoms = [], capture = None\<rparr>
      | c # r \<Rightarrow>
          if c = Lat CHR ''('' then
            (case parseLiterals r of
               Some (ats, rest) \<Rightarrow>
                 if rest = js '')'' then Some \<lparr>atoms = ats, capture = Some (0, length ats)\<rparr> else None
             | None \<Rightarrow> None)
          else
            (case parseLiterals source of
               Some (ats, rest) \<Rightarrow>
                 if rest = [] then Some \<lparr>atoms = ats, capture = None\<rparr> else None
             | None \<Rightarrow> None))"

section \<open>Arrays\<close>

text \<open>
  \<open>xs.sort(cmp)\<close>: the sort of ECMAScript is stable, and for a comparator that is
  consistent it returns the elements in the comparator's order. The model is the stable
  insertion sort.
\<close>

fun insertSorted :: "('a \<Rightarrow> 'a \<Rightarrow> int) \<Rightarrow> 'a \<Rightarrow> 'a list \<Rightarrow> 'a list" where
  "insertSorted cmp x [] = [x]"
| "insertSorted cmp x (y # ys) =
     (if cmp x y \<le> 0 then x # y # ys else y # insertSorted cmp x ys)"

definition array_sort :: "('a \<Rightarrow> 'a \<Rightarrow> int) \<Rightarrow> 'a list \<Rightarrow> 'a list" where
  "array_sort cmp xs = foldr (insertSorted cmp) xs []"

section \<open>The document parser: documentParser.ts\<close>

text \<open>
  The interface Placeholder. The fields \<open>id\<close>, \<open>value\<close> and \<open>type\<close> are \<open>p_id\<close>,
  \<open>p_value\<close> and \<open>p_type\<close> here (the plain names are taken in Isabelle); an optional
  field that is undefined is \<open>None\<close>.
\<close>

datatype placeholder_type = TextField | DateField | NumberField | EmailField

record Placeholder =
  p_id :: jstring
  label :: jstring
  originalText :: jstring
  p_value :: "jstring option"
  p_type :: placeholder_type
  required :: bool
  description :: "jstring option"

subsection \<open>createPlaceholder and formatLabel\<close>

text \<open>\<open>/[_-]/g\<close>\<close>

definition underscoreOrDash :: regex where
  "underscoreOrDash = \<lparr>atoms = [One (In [Ch (Lat CHR ''_''), Ch (Lat CHR ''-'')])], capture = None\<rparr>"

text \<open>\<open>word.charAt(0).toUpperCase() + word.slice(1).toLowerCase()\<close>\<close>

definition capitalize :: "jstring \<Rightarrow> jstring" where
  "capitalize word = toUpperCase (take 1 word) @ toLowerCase (drop 1 word)"

definition formatLabel :: "jstring \<Rightarrow> jstring" where
  "formatLabel text = str_join (js '' '') (map capitalize (str_split (Lat CHR '' '') text))"

text \<open>
  The type and the description that createPlaceholder infers from \<open>lowerText\<close>: the first
  branch of its \<open>if\<close> chain that applies.
\<close>

definition inferType :: "jstring \<Rightarrow> placeholder_type \<times> jstring" where
  "inferType lowerText =
     (if str_includes lowerText (js ''date'') \<or> str_includes lowerText (js ''time'')
        then (DateField, js ''Enter a date'')
      else if str_includes lowerText (js ''email'') \<or> str_includes lowerText (js ''e-mail'')
        then (EmailField, js ''Enter an email address'')
      else if str_includes lowerText (js ''number'') \<or> str_includes lowerText (js ''amount'')
              \<or> str_includes lowerText (js ''price'') \<or> str_includes lowerText (js ''cost'')
        then (NumberField, js ''Enter a number'')
      else (TextField, js ''Enter text''))"

text \<open>
  \<open>generateId()\<close> reads the clock and the random number generator: the identifier it
  returns is the argument \<open>newId\<close>.
\<close>

definition createPlaceholder :: "jstring \<Rightarrow> jstring \<Rightarrow> jstring \<Rightarrow> Placeholder" where
  "createPlaceholder newId text originalText' =
     (let cleanText = str_trim (str_replace text underscoreOrDash (js '' ''));
          lowerText = toLowerCase cleanText;
          required' = (\<not> str_includes lowerText (js ''optional'')
                       \<and> \<not> str_includes lowerText (js ''if applicable''))
      in \<lparr>p_id = newId,
          label = formatLabel cleanText,
          originalText = originalText',
          p_value = None,
          p_type = fst (inferType lowerText),
          required = required',
          description = Some (snd (inferType lowerText))\<rparr>)"

subsection \<open>extractPlaceholders\<close>

text \<open>
  The four patterns, in the order of the array \<open>placeholderPatterns\<close>:
  \<open>/\{\{([^}]+)\}\}/g\<close>, \<open>/\[([A-Z_\s]+)\]/g\<close>, \<open>/<<([^>]+)>>/g\<close> and \<open>/\{([^}]+)\}/g\<close>.
\<close>

definition placeholderPatterns :: "regex list" where
  "placeholderPatterns =
     [\<lparr>atoms = [Lit (Lat CHR ''{''), Lit (Lat CHR ''{''), Plus (NotIn [Ch (Lat CHR ''}'')]), Lit (Lat CHR ''}''), Lit (Lat CHR ''}'')],
       capture = Some (2, 3)\<rparr>,
      \<lparr>atoms = [Lit (Lat CHR ''[''), Plus (In [Range (Lat CHR ''A'') (Lat CHR ''Z''), Ch (Lat CHR ''_''), ClassS]), Lit (Lat CHR '']'')],
       capture = Some (1, 2)\<rparr>,
      \<lparr>atoms = [Lit (Lat CHR ''<''), Lit (Lat CHR ''<''), Plus (NotIn [Ch (Lat CHR ''>'')]), Lit (Lat CHR ''>''), Lit (Lat CHR ''>'')],
       capture = Some (2, 3)\<rparr>,
      \<lparr>atoms = [Lit (Lat CHR ''{''), Plus (NotIn [Ch (Lat CHR ''}'')]), Lit (Lat CHR ''}'')],
       capture = Some (1, 2)\<rparr>]"

text \<open>
  The state of the scan: the set \<open>foundPlaceholders\<close> and the array \<open>placeholders\<close>.
  \<open>ids k\<close> is what \<open>generateId()\<close> returns for the placeholder created after \<open>k\<close> others.
\<close>

record extraction =
  foundPlaceholders :: "jstring set"
  placeholders :: "Placeholder list"

text \<open>
  The body of the \<open>while\<close> loop for one match. \<open>None\<close>: \<open>match[1]\<close> is undefined and
  \<open>match[1].trim()\<close> throws.
\<close>

definition onMatch :: "(nat \<Rightarrow> jstring) \<Rightarrow> extraction \<Rightarrow> rmatch \<Rightarrow> extraction option" where
  "onMatch ids st m =
     (case group1 m of
        None \<Rightarrow> None
      | Some g \<Rightarrow>
          (let originalText' = whole m;
               placeholderText = str_trim g
           in if toLowerCase placeholderText \<in> foundPlaceholders st then Some st
              else Some \<lparr>foundPlaceholders = insert (toLowerCase placeholderText) (foundPlaceholders st),
                         placeholders = placeholders st @
                           [createPlaceholder (ids (length (placeholders st))) placeholderText originalText']\<rparr>))"

fun forEachMatch :: "(nat \<Rightarrow> jstring) \<Rightarrow> extraction \<Rightarrow> rmatch list \<Rightarrow> extraction option" where
  "forEachMatch ids st [] = Some st"
| "forEachMatch ids st (m # ms) =
     (case onMatch ids st m of
        None \<Rightarrow> None
      | Some st' \<Rightarrow> forEachMatch ids st' ms)"

text \<open>One pattern: the \<open>while\<close> loop over its matches in \<open>content\<close>.\<close>

definition scanPattern :: "(nat \<Rightarrow> jstring) \<Rightarrow> jstring \<Rightarrow> extraction \<Rightarrow> regex \<Rightarrow> extraction option" where
  "scanPattern ids content st pattern =
     (case execLoop pattern True content of
        None \<Rightarrow> None
      | Some ms \<Rightarrow> forEachMatch ids st ms)"

fun forEachPattern :: "(nat \<Rightarrow> jstring) \<Rightarrow> jstring \<Rightarrow> extraction \<Rightarrow> regex list \<Rightarrow> extraction option" where
  "forEachPattern ids content st [] = Some st"
| "forEachPattern ids content st (pattern # patterns) =
     (case scanPattern ids content st pattern of
        None \<Rightarrow> None
      | Some st' \<Rightarrow> forEachPattern ids content st' patterns)"

text \<open>The placeholders in the order of their detection, before the final sort.\<close>

definition detectPlaceholders :: "(nat \<Rightarrow> jstring) \<Rightarrow> jstring \<Rightarrow> Placeholder list option" where
  "detectPlaceholders ids content =
     map_option placeholders
       (forEachPattern ids content \<lparr>foundPlaceholders = {}, placeholders = []\<rparr> placeholderPatterns)"

text \<open>
  \<open>localeCompare\<close> is the collation of the host: the argument of the model. The result
  is \<open>None\<close> when the call does not return (a loop that never ends, or an exception).
\<close>

definition extractPlaceholders ::
  "(jstring \<Rightarrow> jstring \<Rightarrow> int) \<Rightarrow> (nat \<Rightarrow> jstring) \<Rightarrow> jstring \<Rightarrow> Placeholder list option" where
  "extractPlaceholders localeCompare ids content =
     map_option (array_sort (\<lambda>a b. localeCompare (label a) (label b)))
       (detectPlaceholders ids content)"

subsection \<open>fillPlaceholders\<close>

text \<open>\<open>/[.*+?^${}()|[\]\\]/g\<close> and the replacement \<open>"\\$&"\<close>.\<close>

definition escapeClass :: regex where
  "escapeClass = \<lparr>atoms = [One (In (map Ch (js ''.*+?^${}()|[]'' @ [Lat CHR 0x5C])))], capture = None\<rparr>"

definition escapeRegExp :: "jstring \<Rightarrow> jstring" where
  "escapeRegExp s = str_replace s escapeClass [Lat CHR 0x5C, Lat CHR ''$'', Lat CHR ''&'']"

text \<open>The body of the \<open>forEach\<close>: a value that is absent or empty is skipped.\<close>

definition fillOne :: "jstring \<Rightarrow> Placeholder \<Rightarrow> jstring option" where
  "fillOne filledContent placeholder =
     (case p_value placeholder of
        None \<Rightarrow> Some filledContent
      | Some v \<Rightarrow>
          if v = [] then Some filledContent
          else (case newRegExp (escapeRegExp (originalText placeholder)) of
                  None \<Rightarrow> None
                | Some regex \<Rightarrow> Some (str_replace filledContent regex v)))"

fun fillPlaceholders :: "jstring \<Rightarrow> Placeholder list \<Rightarrow> jstring option" where
  "fillPlaceholders content [] = Some content"
| "fillPlaceholders content (placeholder # rest) =
     (case fillOne content placeholder of
        None \<Rightarrow> None
      | Some filledContent \<Rightarrow> fillPlaceholders filledContent rest)"

subsection \<open>validatePlaceholders\<close>

record validation =
  isValid :: bool
  errors :: "jstring list"

text \<open>\<open>/^[^\s@]+@[^\s@]+\.[^\s@]+$/\<close>\<close>

definition emailRegex :: regex where
  "emailRegex =
     \<lparr>atoms = [Bol, Plus (NotIn [ClassS, Ch (Lat CHR ''@'')]), Lit (Lat CHR ''@''),
               Plus (NotIn [ClassS, Ch (Lat CHR ''@'')]), Lit (Lat CHR ''.''),
               Plus (NotIn [ClassS, Ch (Lat CHR ''@'')]), Eol],
      capture = None\<rparr>"

definition isValidEmail :: "jstring \<Rightarrow> bool" where
  "isValidEmail email = regex_test emailRegex email"

text \<open>
  \<open>Number\<close> and \<open>Date\<close> belong to the host. \<open>numberIsNaN v\<close> stands for
  \<open>isNaN(Number(v))\<close> and \<open>dateIsNaN v\<close> for \<open>isNaN(new Date(v).getTime())\<close>; both are
  arguments of the model.
\<close>

definition isValidDate :: "(jstring \<Rightarrow> bool) \<Rightarrow> jstring \<Rightarrow> bool" where
  "isValidDate dateIsNaN dateString = (\<not> dateIsNaN dateString)"

text \<open>\<open>!placeholder.value?.trim()\<close>\<close>

definition trimsToEmpty :: "jstring option \<Rightarrow> bool" where
  "trimsToEmpty v = (case v of None \<Rightarrow> True | Some t \<Rightarrow> str_trim t = [])"

text \<open>
  The body of the \<open>forEach\<close> of validatePlaceholders: what one placeholder pushes on
  \<open>errors\<close>. The first branch ends with \<open>return\<close>.
\<close>

definition checkPlaceholder ::
  "(jstring \<Rightarrow> bool) \<Rightarrow> (jstring \<Rightarrow> bool) \<Rightarrow> jstring list \<Rightarrow> Placeholder \<Rightarrow> jstring list" where
  "checkPlaceholder numberIsNaN dateIsNaN errs placeholder =
     (if required placeholder \<and> trimsToEmpty (p_value placeholder)
        then errs @ [label placeholder @ js '' is required'']
      else
        (case p_value placeholder of
           None \<Rightarrow> errs
         | Some v \<Rightarrow>
             if v = [] then errs
             else
               (case p_type placeholder of
                  EmailField \<Rightarrow>
                    if \<not> isValidEmail v
                    then errs @ [label placeholder @ js '' must be a valid email address'']
                    else errs
                | NumberField \<Rightarrow>
                    if numberIsNaN v
                    then errs @ [label placeholder @ js '' must be a valid number'']
                    else errs
                | DateField \<Rightarrow>
                    if \<not> isValidDate dateIsNaN v
                    then errs @ [label placeholder @ js '' must be a valid date'']
                    else errs
                | TextField \<Rightarrow> errs)))"

definition validatePlaceholders ::
  "(jstring \<Rightarrow> bool) \<Rightarrow> (jstring \<Rightarrow> bool) \<Rightarrow> Placeholder list \<Rightarrow> validation" where
  "validatePlaceholders numberIsNaN dateIsNaN ps =
     (let errs = foldl (checkPlaceholder numberIsNaN dateIsNaN) [] ps
      in \<lparr>isValid = (length errs = 0), errors = errs\<rparr>)"

section \<open>The preview: highlightUnfilledPlaceholders\<close>

text \<open>
  The replacement is the template literal
  \<open><span class="unfilled-placeholder" title="Unfilled: ${placeholder.label}">$1</span>\<close>.
\<close>

definition unfilledMarker :: "jstring \<Rightarrow> jstring" where
  "unfilledMarker lbl =
     js ''<span class='' @ [Lat CHR 0x22] @ js ''unfilled-placeholder'' @ [Lat CHR 0x22] @ js '' title='' @ [Lat CHR 0x22]
       @ js ''Unfilled: '' @ lbl @ [Lat CHR 0x22] @ js ''>$1</span>''"

text \<open>\<open>!placeholder.value || placeholder.value.trim() === ''\<close>\<close>

definition isUnfilled :: "jstring option \<Rightarrow> bool" where
  "isUnfilled v = (case v of None \<Rightarrow> True | Some t \<Rightarrow> t = [] \<or> str_trim t = [])"

definition highlightOne :: "jstring \<Rightarrow> Placeholder \<Rightarrow> jstring option" where
  "highlightOne highlightedContent placeholder =
     (if isUnfilled (p_value placeholder) then
        (case newRegExp (js ''('' @ escapeRegExp (originalText placeholder) @ js '')'') of
           None \<Rightarrow> None
         | Some regex \<Rightarrow>
             Some (str_replace highlightedContent regex (unfilledMarker (label placeholder))))
      else Some highlightedContent)"

fun highlightUnfilledPlaceholders :: "Placeholder list \<Rightarrow> jstring \<Rightarrow> jstring option" where
  "highlightUnfilledPlaceholders [] content = Some content"
| "highlightUnfilledPlaceholders (placeholder # rest) content =
     (case highlightOne content placeholder of
        None \<Rightarrow> None
      | Some highlightedContent \<Rightarrow> highlightUnfilledPlaceholders rest highlightedContent)"

text \<open>
  The component keeps \<open>filledContent\<close> and \<open>showPlaceholders\<close> as state. The effect
  \<open>updatePreview\<close> stores \<open>fillPlaceholders(originalContent, placeholders)\<close>; an exception
  is caught and leaves the state as it is. What is shown is
  \<open>showPlaceholders ? highlightUnfilledPlaceholders(filledContent) : filledContent\<close>:
  the highlight runs over the filled content, never over the original one.
\<close>

record preview =
  filledContent :: jstring
  showPlaceholders :: bool

definition initialPreview :: preview where
  "initialPreview = \<lparr>filledContent = [], showPlaceholders = True\<rparr>"

definition updatePreview :: "jstring \<Rightarrow> Placeholder list \<Rightarrow> preview \<Rightarrow> preview" where
  "updatePreview originalContent phs st =
     (case fillPlaceholders originalContent phs of
        None \<Rightarrow> st
      | Some filled \<Rightarrow> st\<lparr>filledContent := filled\<rparr>)"

definition displayContent :: "Placeholder list \<Rightarrow> preview \<Rightarrow> jstring option" where
  "displayContent phs st =
     (if showPlaceholders st then highlightUnfilledPlaceholders phs (filledContent st)
      else Some (filledContent st))"

section \<open>The document download: documentDownload.ts\<close>

subsection \<open>validateForDownload\<close>

text \<open>The decimal digits of a number, as a template literal prints it.\<close>

fun decimal :: "nat \<Rightarrow> jstring" where
  "decimal n =
     (if n < 10 then [Lat (char_of (48 + n))]
      else decimal (n div 10) @ [Lat (char_of (48 + n mod 10))])"

declare decimal.simps [simp del]

definition checkForDownload ::
  "(jstring \<Rightarrow> bool) \<Rightarrow> (jstring \<Rightarrow> bool) \<Rightarrow> jstring list \<Rightarrow> Placeholder \<Rightarrow> jstring list" where
  "checkForDownload numberIsNaN dateIsNaN errs placeholder =
     (case p_value placeholder of
        None \<Rightarrow> errs
      | Some v \<Rightarrow>
          if v \<noteq> [] \<and> str_trim v \<noteq> [] then
            (case p_type placeholder of
               EmailField \<Rightarrow>
                 if \<not> isValidEmail v
                 then errs @ [label placeholder @ js '' contains an invalid email address'']
                 else errs
             | NumberField \<Rightarrow>
                 if numberIsNaN v
                 then errs @ [label placeholder @ js '' contains an invalid number'']
                 else errs
             | DateField \<Rightarrow>
                 if \<not> isValidDate dateIsNaN v
                 then errs @ [label placeholder @ js '' contains an invalid date'']
                 else errs
             | TextField \<Rightarrow> errs)
          else errs)"

definition validateForDownload ::
  "(jstring \<Rightarrow> bool) \<Rightarrow> (jstring \<Rightarrow> bool) \<Rightarrow> Placeholder list \<Rightarrow> validation" where
  "validateForDownload numberIsNaN dateIsNaN ps =
     (let requiredPlaceholders = filter required ps;
          unfilledRequired = filter (\<lambda>p. isUnfilled (p_value p)) requiredPlaceholders;
          errs0 = (if length unfilledRequired > 0
                   then [decimal (length unfilledRequired) @ js '' required field(s) are still empty: ''
                           @ str_join (js '', '') (map label unfilledRequired)]
                   else []);
          errs = foldl (checkForDownload numberIsNaN dateIsNaN) errs0 ps
      in \<lparr>isValid = (length errs = 0), errors = errs\<rparr>)"

subsection \<open>parseTextToParagraphs and the heading heuristic\<close>

text \<open>
  \<open>/^[A-Z][A-Z\s]+$/\<close>, \<open>/^\d+\.\s/\<close>, \<open>/^[A-Z][a-z]+:$/\<close> and \<open>/^[A-Z].*[^.]$/\<close>.
\<close>

definition allCapsPattern :: regex where
  "allCapsPattern =
     \<lparr>atoms = [Bol, One (In [Range (Lat CHR ''A'') (Lat CHR ''Z'')]), Plus (In [Range (Lat CHR ''A'') (Lat CHR ''Z''), ClassS]), Eol],
      capture = None\<rparr>"

definition numberedPattern :: regex where
  "numberedPattern =
     \<lparr>atoms = [Bol, Plus (In [ClassD]), Lit (Lat CHR ''.''), One (In [ClassS])], capture = None\<rparr>"

definition titleColonPattern :: regex where
  "titleColonPattern =
     \<lparr>atoms = [Bol, One (In [Range (Lat CHR ''A'') (Lat CHR ''Z'')]), Plus (In [Range (Lat CHR ''a'') (Lat CHR ''z'')]), Lit (Lat CHR '':''), Eol],
      capture = None\<rparr>"

definition capitalNoPeriodPattern :: regex where
  "capitalNoPeriodPattern =
     \<lparr>atoms = [Bol, One (In [Range (Lat CHR ''A'') (Lat CHR ''Z'')]), Star Dot, One (NotIn [Ch (Lat CHR ''.'')]), Eol],
      capture = None\<rparr>"

definition headingPatterns :: "regex list" where
  "headingPatterns = [allCapsPattern, numberedPattern, titleColonPattern, capitalNoPeriodPattern]"

definition isHeading :: "jstring \<Rightarrow> bool" where
  "isHeading line =
     (list_ex (\<lambda>pattern. regex_test pattern (str_trim line)) headingPatterns \<and> length line < 100)"

text \<open>The heading levels of the docx library.\<close>

datatype heading_level =
  HEADING_1 | HEADING_2 | HEADING_3 | HEADING_4 | HEADING_5 | HEADING_6 | TITLE

definition getHeadingLevel :: "jstring \<Rightarrow> heading_level" where
  "getHeadingLevel line =
     (if regex_test numberedPattern line then HEADING_2
      else if regex_test allCapsPattern line then HEADING_1
      else HEADING_3)"

text \<open>The sizes of the docx library are half-points: 32 is 16pt.\<close>

fun getHeadingSize :: "heading_level \<Rightarrow> nat" where
  "getHeadingSize HEADING_1 = 32"
| "getHeadingSize HEADING_2 = 28"
| "getHeadingSize HEADING_3 = 26"
| "getHeadingSize other = 24"

record Paragraph =
  run_text :: jstring
  bold :: bool
  run_size :: nat
  heading :: "heading_level option"
  spacing_after :: nat

definition makeParagraph :: "jstring \<Rightarrow> Paragraph" where
  "makeParagraph trimmedLine =
     (if isHeading trimmedLine then
        \<lparr>run_text = trimmedLine, bold = True,
         run_size = getHeadingSize (getHeadingLevel trimmedLine),
         heading = Some (getHeadingLevel trimmedLine), spacing_after = 200\<rparr>
      else
        \<lparr>run_text = trimmedLine, bold = False, run_size = 24,
         heading = None, spacing_after = 200\<rparr>)"

definition parseTextToParagraphs :: "jstring \<Rightarrow> Paragraph list" where
  "parseTextToParagraphs text =
     (let lines = filter (\<lambda>line. str_trim line \<noteq> []) (str_split (Lat CHR 0x0A) text)
      in foldl (\<lambda>paragraphs line.
                  if str_trim line = [] then paragraphs
                  else paragraphs @ [makeParagraph (str_trim line)]) [] lines)"

section \<open>The upload check: apiService.ts\<close>

record File =
  f_size :: nat
  f_type :: jstring
  f_name :: jstring

definition maxSize :: nat where
  "maxSize = 10 * 1024 * 1024"

definition allowedTypes :: "jstring list" where
  "allowedTypes =
     [js ''application/vnd.openxmlformats-officedocument.wordprocessingml.document'',
      js ''application/msword'']"

text \<open>\<open>None\<close> is a file that is null or undefined.\<close>

definition validateDocumentUpload :: "File option \<Rightarrow> validation" where
  "validateDocumentUpload file =
     (let errs =
        (case file of
           None \<Rightarrow> [js ''No file provided'']
         | Some f \<Rightarrow>
             (if f_size f > maxSize then [js ''File size exceeds 10MB limit''] else [])
             @ (if f_type f \<notin> set allowedTypes then [js ''Only .docx and .doc files are supported''] else [])
             @ (if length (f_name f) > 255 then [js ''Filename is too long''] else []))
      in \<lparr>isValid = (length errs = 0), errors = errs\<rparr>)"

section \<open>Vocabulary of the properties\<close>

text \<open>A pattern that starts with one code unit and has a capture group.\<close>

definition capturingPattern :: "regex \<Rightarrow> bool" where
  "capturingPattern re = ((case atoms re of One cs # rest \<Rightarrow> True | _ \<Rightarrow> False) \<and> capture re \<noteq> None)"

text \<open>Every field of a Placeholder but its identifier.\<close>

definition withoutId ::
  "Placeholder \<Rightarrow> jstring \<times> jstring \<times> jstring option \<times> placeholder_type \<times> bool \<times> jstring option" where
  "withoutId p = (label p, originalText p, p_value p, p_type p, required p, description p)"

definition sameButIds :: "extraction \<Rightarrow> extraction \<Rightarrow> bool" where
  "sameButIds st st' =
     (foundPlaceholders st = foundPlaceholders st'
      \<and> map withoutId (placeholders st) = map withoutId (placeholders st'))"

text \<open>
  Sample hosts for the concrete runs: a \<open>localeCompare\<close> that collates by code units, and
  a \<open>generateId\<close> that numbers the placeholders.
\<close>

definition codeUnitCompare :: "jstring \<Rightarrow> jstring \<Rightarrow> int" where
  "codeUnitCompare a b =
     (if map codeOf a < map codeOf b then - 1
      else if map codeOf a = map codeOf b then 0
      else 1)"

definition sampleIds :: "nat \<Rightarrow> jstring" where
  "sampleIds k = js ''placeholder_'' @ decimal k"

text \<open>
  Replacing every occurrence of a text, as the specification words it: the occurrences are
  taken from the left and do not overlap. The empty text occurs before every code unit and
  at the end.
\<close>

function replaceEveryOccurrence :: "jstring \<Rightarrow> jstring \<Rightarrow> jstring \<Rightarrow> jstring" where
  "replaceEveryOccurrence needle repl s =
     (case s of
        [] \<Rightarrow> (if needle = [] then repl else [])
      | c # cs \<Rightarrow>
          if needle = [] then repl @ c # replaceEveryOccurrence needle repl cs
          else if isPrefixOf needle s
            then repl @ replaceEveryOccurrence needle repl (drop (length needle) s)
          else c # replaceEveryOccurrence needle repl cs)"
  by pat_completeness auto
termination
  by (relation "measure (\<lambda>(needle, repl, s). length s)") auto

declare replaceEveryOccurrence.simps [simp del]

text \<open>A syntax character of a pattern is escaped by a backslash.\<close>

definition escapeChar :: "code_unit \<Rightarrow> jstring" where
  "escapeChar c = (if isSyntaxChar c then [Lat CHR 0x5C, c] else [c])"

text \<open>An occurrence inside the marker of the highlight view.\<close>

definition markedText :: "jstring \<Rightarrow> jstring \<Rightarrow> jstring" where
  "markedText lbl occurrence =
     js ''<span class='' @ [Lat CHR 0x22] @ js ''unfilled-placeholder'' @ [Lat CHR 0x22] @ js '' title='' @ [Lat CHR 0x22]
       @ js ''Unfilled: '' @ lbl @ [Lat CHR 0x22] @ js ''>'' @ occurrence @ js ''</span>''"







text \<open>A sample Placeholder for the token of a \<open>{{...}}\<close> occurrence.\<close>

definition sampleField :: "jstring \<Rightarrow> placeholder_type \<Rightarrow> bool \<Rightarrow> jstring option \<Rightarrow> Placeholder" where
  "sampleField token ty req v =
     \<lparr>p_id = js ''placeholder_0'', label = token, originalText = js ''{{'' @ token @ js ''}}'',
      p_value = v, p_type = ty, required = req, description = None\<rparr>"

text \<open>
  The checks of validatePlaceholders as the specification words them. An email has the
  shape \<open>local@domain.tld\<close>: three parts that are not empty and hold neither white space nor
  \<open>@\<close>. A field fails its type check when it has a value that is not the empty string and
  the check of its type rejects the value. Each field gives at most one error: the
  completeness error when it is required and its value trims to nothing, else the type
  error.
\<close>

definition emailPart :: "jstring \<Rightarrow> bool" where
  "emailPart u = (u \<noteq> [] \<and> (\<forall>c\<in>set u. \<not> isWhiteSpace c \<and> c \<noteq> Lat CHR ''@''))"

definition emailShape :: "jstring \<Rightarrow> bool" where
  "emailShape v =
     (\<exists>local domain tld. v = local @ js ''@'' @ domain @ js ''.'' @ tld
        \<and> emailPart local \<and> emailPart domain \<and> emailPart tld)"

definition failsTypeCheck :: "(jstring \<Rightarrow> bool) \<Rightarrow> (jstring \<Rightarrow> bool) \<Rightarrow> Placeholder \<Rightarrow> bool" where
  "failsTypeCheck numberIsNaN dateIsNaN p =
     (case p_value p of
        None \<Rightarrow> False
      | Some v \<Rightarrow>
          v \<noteq> [] \<and>
          (case p_type p of
             EmailField \<Rightarrow> \<not> emailShape v
           | NumberField \<Rightarrow> numberIsNaN v
           | DateField \<Rightarrow> dateIsNaN v
           | TextField \<Rightarrow> False))"

definition typeErrorText :: "placeholder_type \<Rightarrow> jstring" where
  "typeErrorText ty =
     (case ty of
        EmailField \<Rightarrow> js '' must be a valid email address''
      | NumberField \<Rightarrow> js '' must be a valid number''
      | DateField \<Rightarrow> js '' must be a valid date''
      | TextField \<Rightarrow> [])"

definition fieldErrors :: "(jstring \<Rightarrow> bool) \<Rightarrow> (jstring \<Rightarrow> bool) \<Rightarrow> Placeholder \<Rightarrow> jstring list" where
  "fieldErrors numberIsNaN dateIsNaN p =
     (if required p \<and> trimsToEmpty (p_value p) then [label p @ js '' is required'']
      else if failsTypeCheck numberIsNaN dateIsNaN p then [label p @ typeErrorText (p_type p)]
      else [])"

definition whitespaceOnly :: "jstring option \<Rightarrow> bool" where
  "whitespaceOnly v = (case v of None \<Rightarrow> False | Some t \<Rightarrow> t \<noteq> [] \<and> str_trim t = [])"

text \<open>Three lines of a document: a title, a numbered clause and a sentence.\<close>

definition sampleText :: jstring where
  "sampleText = js ''SECTION ONE'' @ [Lat CHR 0x0A] @ js ''1. Parties'' @ [Lat CHR 0x0A, Lat CHR 0x0A]
                  @ js ''  This agreement is made today.'' @ [Lat CHR 0x0A]"







text \<open>Filling as the specification words it: the value in the place of every occurrence.\<close>

definition fillLiterally :: "jstring \<Rightarrow> Placeholder \<Rightarrow> jstring" where
  "fillLiterally content p =
     (case p_value p of
        None \<Rightarrow> content
      | Some v \<Rightarrow> if v = [] then content else replaceEveryOccurrence (originalText p) v content)"

section \<open>Properties\<close>

subsection \<open>Facts about the sort\<close>

lemma set_insertSorted: "set (insertSorted cmp x ys) = insert x (set ys)"
  by (induction ys) auto

lemma length_insertSorted: "length (insertSorted cmp x ys) = Suc (length ys)"
  by (induction ys) auto

lemma set_array_sort: "set (array_sort cmp xs) = set xs"
  by (induction xs) (auto simp: array_sort_def set_insertSorted)

lemma length_array_sort: "length (array_sort cmp xs) = length xs"
  by (induction xs) (auto simp: array_sort_def length_insertSorted)

lemma sorted_insertSorted:
  assumes total: "\<And>a b. cmp a b \<le> 0 \<or> cmp b a \<le> 0"
    and trans: "\<And>a b c. cmp a b \<le> 0 \<Longrightarrow> cmp b c \<le> 0 \<Longrightarrow> cmp a c \<le> 0"
    and sorted: "sorted_wrt (\<lambda>a b. cmp a b \<le> 0) ys"
  shows "sorted_wrt (\<lambda>a b. cmp a b \<le> 0) (insertSorted cmp x ys)"
  using sorted
proof (induction ys)
  case Nil
  then show ?case by simp
next
  case (Cons y ys)
  show ?case
  proof (cases "cmp x y \<le> 0")
    case True
    have "\<forall>z\<in>set ys. cmp x z \<le> 0"
      using Cons.prems True trans by auto
    with True Cons.prems show ?thesis by simp
  next
    case False
    then have "cmp y x \<le> 0" using total by blast
    with False Cons show ?thesis
      by (auto simp: set_insertSorted)
  qed
qed

lemma sorted_array_sort:
  assumes "\<And>a b. cmp a b \<le> 0 \<or> cmp b a \<le> 0"
    and "\<And>a b c. cmp a b \<le> 0 \<Longrightarrow> cmp b c \<le> 0 \<Longrightarrow> cmp a c \<le> 0"
  shows "sorted_wrt (\<lambda>a b. cmp a b \<le> 0) (array_sort cmp xs)"
proof (induction xs)
  case Nil
  then show ?case by (simp add: array_sort_def)
next
  case (Cons x xs)
  have "array_sort cmp (x # xs) = insertSorted cmp x (array_sort cmp xs)"
    by (simp add: array_sort_def)
  with Cons sorted_insertSorted [of cmp "array_sort cmp xs" x] assms show ?case
    by simp
qed

text \<open>Two arrays that agree under \<open>f\<close> are sorted alike by a comparator that reads \<open>f\<close> only.\<close>

lemma insertSorted_agree:
  assumes "\<And>a b a' b'. f a = f a' \<Longrightarrow> f b = f b' \<Longrightarrow> cmp a b = cmp a' b'"
    and "f x = f x'" and "map f ys = map f ys'"
  shows "map f (insertSorted cmp x ys) = map f (insertSorted cmp x' ys')"
  using assms(3)
proof (induction ys arbitrary: ys')
  case Nil
  then show ?case using assms(2) by simp
next
  case (Cons y ys)
  then obtain y' zs where ys': "ys' = y' # zs" and y: "f y = f y'" and zs: "map f ys = map f zs"
    by (cases ys') auto
  have "cmp x y = cmp x' y'"
    using assms(1) [OF assms(2) y] .
  with Cons.IH [OF zs] ys' y zs assms(2) show ?case by simp
qed

lemma array_sort_agree:
  assumes "\<And>a b a' b'. f a = f a' \<Longrightarrow> f b = f b' \<Longrightarrow> cmp a b = cmp a' b'"
    and "map f xs = map f xs'"
  shows "map f (array_sort cmp xs) = map f (array_sort cmp xs')"
  using assms(2)
proof (induction xs arbitrary: xs')
  case Nil
  then show ?case by (simp add: array_sort_def)
next
  case (Cons x xs)
  then obtain x' zs where xs': "xs' = x' # zs" and x: "f x = f x'" and zs: "map f xs = map f zs"
    by (cases xs') auto
  have "map f (insertSorted cmp x (array_sort cmp xs)) = map f (insertSorted cmp x' (array_sort cmp zs))"
    using insertSorted_agree [of f cmp, OF assms(1) x Cons.IH [OF zs]] by blast
  then show ?case by (simp add: array_sort_def xs')
qed

subsection \<open>extractPlaceholders returns\<close>

lemma matchHere_One_nonempty:
  "matchHere (One cs # rest) atStart s = Some spans \<Longrightarrow> concat spans \<noteq> []"
  by (auto split: list.splits if_splits)

lemma execLoop_returns:
  assumes "capturingPattern re"
  shows "\<exists>ms. execLoop re atStart s = Some ms \<and> list_all (\<lambda>m. group1 m \<noteq> None) ms"
proof (induction "length s" arbitrary: s atStart rule: less_induct)
  case less
  from assms obtain cs rest where ats: "atoms re = One cs # rest" and cap: "capture re \<noteq> None"
    by (auto simp: capturingPattern_def split: list.splits atom.splits)
  show ?case
  proof (cases "matchHere (atoms re) atStart s")
    case None
    show ?thesis
    proof (cases s)
      case Nil
      with None show ?thesis by (subst execLoop.simps) simp
    next
      case (Cons c s')
      then have "length s' < length s" by simp
      from less [OF this] obtain ms where
        "execLoop re False s' = Some ms" "list_all (\<lambda>m. group1 m \<noteq> None) ms" by blast
      with None Cons show ?thesis by (subst execLoop.simps) simp
    qed
  next
    case (Some spans)
    then have ne: "concat spans \<noteq> []"
      using matchHere_One_nonempty ats by metis
    have "length (drop (length (concat spans)) s) < length s"
      using matchHere_nonempty [OF Some ne] by simp
    from less [OF this] obtain ms where
      ms: "execLoop re False (drop (length (concat spans)) s) = Some ms"
      "list_all (\<lambda>m. group1 m \<noteq> None) ms" by blast
    have "group1 (mkMatch re spans) \<noteq> None"
      using cap by (simp add: mkMatch_def)
    with Some ne ms show ?thesis
      by (subst execLoop.simps) (simp del: concat_eq_Nil_conv)
  qed
qed

lemma forEachMatch_returns:
  "list_all (\<lambda>m. group1 m \<noteq> None) ms \<Longrightarrow> \<exists>st'. forEachMatch ids st ms = Some st'"
proof (induction ms arbitrary: st)
  case Nil
  then show ?case by simp
next
  case (Cons m ms)
  then obtain g where "group1 m = Some g" by auto
  then have "\<exists>st1. onMatch ids st m = Some st1"
    by (simp add: onMatch_def Let_def)
  with Cons show ?case by auto
qed

lemma forEachPattern_returns:
  "list_all capturingPattern patterns \<Longrightarrow> \<exists>st'. forEachPattern ids content st patterns = Some st'"
proof (induction patterns arbitrary: st)
  case Nil
  then show ?case by simp
next
  case (Cons re patterns)
  then have "capturingPattern re" by simp
  from execLoop_returns [OF this, of True content] forEachMatch_returns
  obtain st1 where "scanPattern ids content st re = Some st1"
    by (fastforce simp: scanPattern_def)
  with Cons show ?case by simp
qed

lemma placeholderPatterns_capturing: "list_all capturingPattern placeholderPatterns"
  by (simp add: placeholderPatterns_def capturingPattern_def)

lemma detectPlaceholders_returns: "\<exists>ps. detectPlaceholders ids content = Some ps"
  using forEachPattern_returns [OF placeholderPatterns_capturing]
  by (fastforce simp: detectPlaceholders_def)

lemma extractPlaceholders_returns: "\<exists>ps. extractPlaceholders lc ids content = Some ps"
  using detectPlaceholders_returns [of ids content]
  by (auto simp: extractPlaceholders_def)

subsection \<open>Determinism up to the identifier\<close>

lemma withoutId_createPlaceholder:
  "withoutId (createPlaceholder i t orig) = withoutId (createPlaceholder j t orig)"
  by (simp add: withoutId_def createPlaceholder_def Let_def)

lemma onMatch_sameButIds:
  "sameButIds st st' \<Longrightarrow> rel_option sameButIds (onMatch ids st m) (onMatch ids' st' m)"
  by (cases "group1 m") (auto simp: onMatch_def Let_def sameButIds_def withoutId_createPlaceholder)

lemma forEachMatch_sameButIds:
  "sameButIds st st' \<Longrightarrow> rel_option sameButIds (forEachMatch ids st ms) (forEachMatch ids' st' ms)"
proof (induction ms arbitrary: st st')
  case Nil
  then show ?case by simp
next
  case (Cons m ms)
  from onMatch_sameButIds [OF Cons.prems, of ids m ids']
  show ?case
    by (cases "onMatch ids st m"; cases "onMatch ids' st' m") (auto intro: Cons.IH)
qed

lemma forEachPattern_sameButIds:
  "sameButIds st st' \<Longrightarrow>
   rel_option sameButIds (forEachPattern ids content st patterns) (forEachPattern ids' content st' patterns)"
proof (induction patterns arbitrary: st st')
  case Nil
  then show ?case by simp
next
  case (Cons re patterns)
  have "rel_option sameButIds (scanPattern ids content st re) (scanPattern ids' content st' re)"
    using forEachMatch_sameButIds [OF Cons.prems]
    by (cases "execLoop re True content") (auto simp: scanPattern_def)
  then show ?case
    by (cases "scanPattern ids content st re"; cases "scanPattern ids' content st' re")
       (auto intro: Cons.IH)
qed

lemma detectPlaceholders_sameButIds:
  "map_option (map withoutId) (detectPlaceholders ids content)
     = map_option (map withoutId) (detectPlaceholders ids' content)"
proof -
  let ?st0 = "\<lparr>foundPlaceholders = {}, placeholders = []\<rparr>"
  have "sameButIds ?st0 ?st0" by (simp add: sameButIds_def)
  from forEachPattern_sameButIds [OF this, of ids content placeholderPatterns ids']
  show ?thesis
    unfolding detectPlaceholders_def
    by (cases "forEachPattern ids content ?st0 placeholderPatterns";
        cases "forEachPattern ids' content ?st0 placeholderPatterns")
       (auto simp: sameButIds_def)
qed

lemma extractPlaceholders_sameButIds:
  "map_option (map withoutId) (extractPlaceholders lc ids content)
     = map_option (map withoutId) (extractPlaceholders lc ids' content)"
proof -
  have agree: "map withoutId (array_sort (\<lambda>a b. lc (label a) (label b)) ps)
             = map withoutId (array_sort (\<lambda>a b. lc (label a) (label b)) qs)"
    if "map withoutId ps = map withoutId qs" for ps qs
    using that by (intro array_sort_agree) (auto simp: withoutId_def)
  from detectPlaceholders_sameButIds [of ids content ids'] show ?thesis
    unfolding extractPlaceholders_def
    by (cases "detectPlaceholders ids content"; cases "detectPlaceholders ids' content")
       (auto intro: agree)
qed


subsection \<open>Replacement texts\<close>

lemma getSubstitution_plain_append:
  "Lat CHR ''$'' \<notin> set t \<Longrightarrow>
   getSubstitution m p a caps (t @ u) = t @ getSubstitution m p a caps u"
proof (induction t)
  case Nil
  then show ?case by simp
next
  case (Cons c t)
  then have c: "c \<noteq> Lat CHR ''$''" by auto
  have step: "getSubstitution m p a caps (c # r) = c # getSubstitution m p a caps r" for r
    using c by (cases r) simp_all
  from Cons show ?case by (simp add: step)
qed

lemma getSubstitution_plain:
  "Lat CHR ''$'' \<notin> set t \<Longrightarrow> getSubstitution m p a caps t = t"
  using getSubstitution_plain_append [of t m p a caps "[]"] by simp

subsection \<open>Replacing the code units of a class\<close>

lemma matchHere_One:
  "matchHere [One cs] atStart s =
     (case s of [] \<Rightarrow> None | c # s' \<Rightarrow> if cset_matches cs c then Some [[c]] else None)"
  by (simp split: list.splits)

lemma replaceLoop_class:
  assumes "\<And>c p a. getSubstitution [c] p a [] repl = R c"
  shows "replaceLoop \<lparr>atoms = [One cs], capture = None\<rparr> repl pre s
           = concat (map (\<lambda>c. if cset_matches cs c then R c else [c]) s)"
proof (induction s arbitrary: pre)
  case Nil
  show ?case by (subst replaceLoop.simps) simp
next
  case (Cons c s)
  show ?case
    by (subst replaceLoop.simps)
       (simp add: Cons.IH substitution_def captures_def mkMatch_def assms)
qed


lemma escapeRegExp_eq: "escapeRegExp s = concat (map escapeChar s)"
proof -
  let ?cs = "In (map Ch (js ''.*+?^${}()|[]'' @ [Lat CHR 0x5C]))"
  have "escapeRegExp s = concat (map (\<lambda>c. if cset_matches ?cs c then [Lat CHR 0x5C, c] else [c]) s)"
    unfolding escapeRegExp_def str_replace_def escapeClass_def
    by (rule replaceLoop_class) simp
  moreover have "cset_matches ?cs c = isSyntaxChar c" for c
    by (auto simp: isSyntaxChar_def)
  ultimately show ?thesis by (simp add: escapeChar_def [abs_def])
qed

lemma escapeRegExp_Nil [simp]: "escapeRegExp [] = []"
  by (simp add: escapeRegExp_eq)

lemma escapeRegExp_Cons: "escapeRegExp (c # s) = escapeChar c @ escapeRegExp s"
  by (simp add: escapeRegExp_eq)

subsection \<open>The pattern built from an escaped text\<close>

lemma parseLiterals_escaped:
  assumes "tail = [] \<or> tail = js '')''"
  shows "parseLiterals (escapeRegExp s @ tail) = Some (map Lit s, tail)"
proof (induction s)
  case Nil
  from assms show ?case by auto
next
  case (Cons c s)
  show ?case
  proof (cases "isSyntaxChar c")
    case True
    then show ?thesis
      by (simp add: escapeRegExp_Cons escapeChar_def Cons.IH)
  next
    case False
    then have c: "c \<noteq> Lat CHR 0x5C" "c \<noteq> Lat CHR '')''"
      by (auto simp: isSyntaxChar_def)
    show ?thesis
    proof (cases "escapeRegExp s @ tail")
      case Nil
      with Cons.IH have "s = []" "tail = []" by auto
      with False c show ?thesis
        by (simp add: escapeRegExp_Cons escapeChar_def)
    next
      case (Cons d r)
      with Cons.IH False c show ?thesis
        by (simp add: escapeRegExp_Cons escapeChar_def)
    qed
  qed
qed

lemma escapeRegExp_first: "escapeRegExp s = c # r \<Longrightarrow> c \<noteq> Lat CHR ''(''"
  by (cases s) (auto simp: escapeRegExp_Cons escapeChar_def isSyntaxChar_def split: if_splits)

lemma newRegExp_escaped:
  "newRegExp (escapeRegExp s) = Some \<lparr>atoms = map Lit s, capture = None\<rparr>"
proof (cases "escapeRegExp s")
  case Nil
  moreover from Nil have "s = []"
    using parseLiterals_escaped [of "[]" s] by auto
  ultimately show ?thesis by (simp add: newRegExp_def)
next
  case (Cons c r)
  then have "c \<noteq> Lat CHR ''(''" by (rule escapeRegExp_first)
  moreover have "parseLiterals (c # r) = Some (map Lit s, [])"
    using parseLiterals_escaped [of "[]" s] Cons by simp
  ultimately show ?thesis
    using Cons by (simp add: newRegExp_def)
qed


subsection \<open>Matching a literal pattern\<close>

lemma matchHere_literal:
  "matchHere (map Lit lit) atStart s
     = (if isPrefixOf lit s then Some (map (\<lambda>c. [c]) lit) else None)"
proof (induction lit arbitrary: atStart s)
  case Nil
  show ?case by simp
next
  case (Cons c lit)
  show ?case by (cases s) (auto simp: Cons.IH)
qed

lemma concat_singletons: "concat (map (\<lambda>c. [c]) lit) = lit"
  by (induction lit) auto

lemma isPrefixOf_length: "isPrefixOf lit s \<Longrightarrow> length lit \<le> length s"
  by (induction lit s rule: isPrefixOf.induct) auto

lemma replaceLoop_literal:
  assumes cap: "cap = None \<or> cap = Some (0, length lit)"
    and sub: "\<And>p a. getSubstitution lit p a (case cap of None \<Rightarrow> [] | Some ij \<Rightarrow> [lit]) repl = R"
  shows "replaceLoop \<lparr>atoms = map Lit lit, capture = cap\<rparr> repl pre s
           = replaceEveryOccurrence lit R s"
proof (induction "length s" arbitrary: s pre rule: less_induct)
  case less
  let ?re = "\<lparr>atoms = map Lit lit, capture = cap\<rparr>"
  have caps: "captures (mkMatch ?re (map (\<lambda>c. [c]) lit)) = (case cap of None \<Rightarrow> [] | Some ij \<Rightarrow> [lit])"
    using cap by (auto simp: captures_def mkMatch_def concat_singletons)
  have subst: "substitution ?re (map (\<lambda>c. [c]) lit) p t repl = R" for p t
    by (simp add: substitution_def caps concat_singletons sub)
  show ?case
  proof (cases "isPrefixOf lit s")
    case False
    then have ne: "lit \<noteq> []" by (cases lit) auto
    show ?thesis
    proof (cases s)
      case Nil
      with False ne show ?thesis
        by (subst replaceLoop.simps, subst replaceEveryOccurrence.simps)
           (simp add: matchHere_literal)
    next
      case (Cons c s')
      then have "length s' < length s" by simp
      from less [OF this] False ne Cons show ?thesis
        by (subst replaceLoop.simps, subst replaceEveryOccurrence.simps)
           (simp add: matchHere_literal)
    qed
  next
    case True
    show ?thesis
    proof (cases "lit = []")
      case empty: True
      show ?thesis
      proof (cases s)
        case Nil
        with empty subst [of pre "[]"] show ?thesis
          by (subst replaceLoop.simps, subst replaceEveryOccurrence.simps)
             (simp add: matchHere_literal)
      next
        case (Cons c s')
        then have "length s' < length s" by simp
        from less [OF this] empty Cons subst [of pre "c # s'"] show ?thesis
          by (subst replaceLoop.simps, subst replaceEveryOccurrence.simps)
             (simp add: matchHere_literal)
      qed
    next
      case False
      with True obtain c s' where s: "s = c # s'"
        by (cases s) (auto simp: neq_Nil_conv)
      have "length (drop (length lit) s) < length s"
        using False s by simp
      from less [OF this] True False s subst [of pre s] show ?thesis
        by (subst replaceLoop.simps, subst replaceEveryOccurrence.simps)
           (simp add: matchHere_literal concat_singletons del: concat_eq_Nil_conv)
    qed
  qed
qed



subsection \<open>fillPlaceholders and the highlight view on literal text\<close>

lemma fillOne_returns: "\<exists>r. fillOne content p = Some r"
  by (simp add: fillOne_def newRegExp_escaped split: option.splits)

lemma fillPlaceholders_returns: "\<exists>r. fillPlaceholders content ps = Some r"
proof (induction ps arbitrary: content)
  case Nil
  show ?case by simp
next
  case (Cons p ps)
  obtain r where "fillOne content p = Some r"
    using fillOne_returns by blast
  with Cons [of r] show ?case by simp
qed

lemma fillOne_skips:
  "p_value p = None \<or> p_value p = Some [] \<Longrightarrow> fillOne content p = Some content"
  by (auto simp: fillOne_def)

lemma fillOne_literal:
  assumes "p_value p = Some v" and "v \<noteq> []" and "Lat CHR ''$'' \<notin> set v"
  shows "fillOne content p = Some (replaceEveryOccurrence (originalText p) v content)"
proof -
  have "replaceLoop \<lparr>atoms = map Lit (originalText p), capture = None\<rparr> v [] content
          = replaceEveryOccurrence (originalText p) v content"
    by (rule replaceLoop_literal) (simp_all add: getSubstitution_plain assms(3))
  with assms(1,2) show ?thesis
    by (simp add: fillOne_def newRegExp_escaped str_replace_def)
qed


lemma codeOf_Lat_eq: "codeOf (Lat x) = of_char y \<longleftrightarrow> x = y"
  by simp









subsection \<open>White space\<close>




lemma isUnfilled_trimsToEmpty: "isUnfilled v = trimsToEmpty v"
  by (cases v) (auto simp: isUnfilled_def trimsToEmpty_def str_trim_def)

subsection \<open>Every placeholder of the scan comes from createPlaceholder\<close>


lemma onMatch_created:
  assumes "onMatch ids st m = Some st'"
    and "\<forall>p\<in>set (placeholders st). \<exists>i token. p = createPlaceholder i token (originalText p)"
  shows "\<forall>p\<in>set (placeholders st'). \<exists>i token. p = createPlaceholder i token (originalText p)"
proof -
  have self: "\<exists>i token. createPlaceholder j t orig
                = createPlaceholder i token (originalText (createPlaceholder j t orig))" for j t orig
    by (rule exI [of _ j], rule exI [of _ t]) (simp add: createPlaceholder_def Let_def)
  from assms show ?thesis
    by (auto simp: onMatch_def Let_def self split: option.splits if_splits)
qed

lemma forEachMatch_created:
  assumes "forEachMatch ids st ms = Some st'"
    and "\<forall>p\<in>set (placeholders st). \<exists>i token. p = createPlaceholder i token (originalText p)"
  shows "\<forall>p\<in>set (placeholders st'). \<exists>i token. p = createPlaceholder i token (originalText p)"
  using assms
proof (induction ms arbitrary: st)
  case Nil
  then show ?case by simp
next
  case (Cons m ms)
  from Cons.prems(1) obtain st1 where st1: "onMatch ids st m = Some st1"
    and rest: "forEachMatch ids st1 ms = Some st'"
    by (auto split: option.splits)
  from Cons.IH [OF rest onMatch_created [OF st1 Cons.prems(2)]] show ?case .
qed

lemma forEachPattern_created:
  assumes "forEachPattern ids content st patterns = Some st'"
    and "\<forall>p\<in>set (placeholders st). \<exists>i token. p = createPlaceholder i token (originalText p)"
  shows "\<forall>p\<in>set (placeholders st'). \<exists>i token. p = createPlaceholder i token (originalText p)"
  using assms
proof (induction patterns arbitrary: st)
  case Nil
  then show ?case by simp
next
  case (Cons re patterns)
  from Cons.prems(1) obtain st1 where st1: "scanPattern ids content st re = Some st1"
    and rest: "forEachPattern ids content st1 patterns = Some st'"
    by (auto split: option.splits)
  from st1 obtain ms where "forEachMatch ids st ms = Some st1"
    by (auto simp: scanPattern_def split: option.splits)
  from Cons.IH [OF rest forEachMatch_created [OF this Cons.prems(2)]] show ?case .
qed

lemma extractPlaceholders_created:
  assumes "extractPlaceholders lc ids content = Some ps" and "p \<in> set ps"
  shows "\<exists>i token. p = createPlaceholder i token (originalText p)"
proof -
  from assms(1) obtain ds where ds: "detectPlaceholders ids content = Some ds"
    and ps: "ps = array_sort (\<lambda>a b. lc (label a) (label b)) ds"
    by (auto simp: extractPlaceholders_def)
  from ds obtain st' where
    "forEachPattern ids content \<lparr>foundPlaceholders = {}, placeholders = []\<rparr> placeholderPatterns = Some st'"
    and "ds = placeholders st'"
    by (auto simp: detectPlaceholders_def)
  with forEachPattern_created [of ids content _ placeholderPatterns st']
  have "\<forall>p\<in>set ds. \<exists>i token. p = createPlaceholder i token (originalText p)"
    by simp
  with assms(2) ps show ?thesis
    by (simp add: set_array_sort)
qed


subsection \<open>What a pattern accepts\<close>

lemma backtrack_None_iff:
  "backtrack f lo n = None \<longleftrightarrow> (\<forall>k. lo \<le> k \<and> k \<le> n \<longrightarrow> f k = None)"
proof (induction n)
  case 0
  show ?case by auto
next
  case (Suc n)
  show ?case
  proof (cases "Suc n < lo")
    case True
    then show ?thesis by auto
  next
    case False
    show ?thesis
    proof (cases "f (Suc n)")
      case None
      have "(\<forall>k. lo \<le> k \<and> k \<le> Suc n \<longrightarrow> f k = None) \<longleftrightarrow> (\<forall>k. lo \<le> k \<and> k \<le> n \<longrightarrow> f k = None)"
        using None le_Suc_eq by metis
      with False None Suc show ?thesis
        by simp
    next
      case (Some r)
      have rhs: "\<not> (\<forall>k. lo \<le> k \<and> k \<le> Suc n \<longrightarrow> f k = None)"
      proof
        assume "\<forall>k. lo \<le> k \<and> k \<le> Suc n \<longrightarrow> f k = None"
        moreover have "lo \<le> Suc n" using False by simp
        ultimately have "f (Suc n) = None" by blast
        with Some show False by simp
      qed
      have lhs: "backtrack f lo (Suc n) \<noteq> None"
        using False Some by simp
      from lhs rhs show ?thesis by blast
    qed
  qed
qed

lemma takeWhile_length_iff:
  "k \<le> length (takeWhile P s) \<longleftrightarrow> k \<le> length s \<and> (\<forall>c\<in>set (take k s). P c)"
proof (induction s arbitrary: k)
  case Nil
  show ?case by simp
next
  case (Cons c s)
  show ?case
  proof (cases k)
    case 0
    then show ?thesis by simp
  next
    case (Suc j)
    with Cons [of j] show ?thesis by auto
  qed
qed

lemma accepts_Plus:
  "matchHere (Plus cs # rest) atStart s \<noteq> None \<longleftrightarrow>
     (\<exists>u w. s = u @ w \<and> u \<noteq> [] \<and> (\<forall>c\<in>set u. cset_matches cs c) \<and> matchHere rest False w \<noteq> None)"
proof
  assume "matchHere (Plus cs # rest) atStart s \<noteq> None"
  then obtain k where k: "1 \<le> k" "k \<le> length (takeWhile (cset_matches cs) s)"
    and m: "matchHere rest False (drop k s) \<noteq> None"
    by (auto simp: backtrack_None_iff)
  from k(2) have "k \<le> length s" "\<forall>c\<in>set (take k s). cset_matches cs c"
    by (simp_all add: takeWhile_length_iff)
  with k(1) m have "s = take k s @ drop k s \<and> take k s \<noteq> [] \<and>
      (\<forall>c\<in>set (take k s). cset_matches cs c) \<and> matchHere rest False (drop k s) \<noteq> None"
    by auto
  then show "\<exists>u w. s = u @ w \<and> u \<noteq> [] \<and> (\<forall>c\<in>set u. cset_matches cs c) \<and> matchHere rest False w \<noteq> None"
    by blast
next
  assume "\<exists>u w. s = u @ w \<and> u \<noteq> [] \<and> (\<forall>c\<in>set u. cset_matches cs c) \<and> matchHere rest False w \<noteq> None"
  then obtain u w where s: "s = u @ w" and u: "u \<noteq> []" "\<forall>c\<in>set u. cset_matches cs c"
    and m: "matchHere rest False w \<noteq> None"
    by blast
  have "length u \<le> length (takeWhile (cset_matches cs) s)"
    using s u(2) by (simp add: takeWhile_length_iff)
  moreover have "1 \<le> length u" using u(1) by (cases u) auto
  moreover have "matchHere rest False (drop (length u) s) \<noteq> None"
    using s m by simp
  ultimately show "matchHere (Plus cs # rest) atStart s \<noteq> None"
    by (auto simp: backtrack_None_iff)
qed

lemma accepts_One:
  "matchHere (One cs # rest) atStart s \<noteq> None \<longleftrightarrow>
     (\<exists>c w. s = c # w \<and> cset_matches cs c \<and> matchHere rest False w \<noteq> None)"
  by (cases s) auto

lemma accepts_Eol: "matchHere [Eol] atStart s \<noteq> None \<longleftrightarrow> s = []"
  by simp

lemma accepts_Bol:
  "matchHere (Bol # rest) atStart s \<noteq> None \<longleftrightarrow> atStart \<and> matchHere rest atStart s \<noteq> None"
  by simp

lemma searchFrom_Bol_later: "\<not> searchFrom (Bol # rest) False s"
  by (induction s) auto

lemma regex_test_anchored:
  "atoms re = Bol # rest \<Longrightarrow> regex_test re s \<longleftrightarrow> matchHere rest True s \<noteq> None"
  by (cases s) (auto simp: regex_test_def searchFrom_Bol_later)



lemma isValidEmail_shape: "isValidEmail v \<longleftrightarrow> emailShape v"
proof -
  let ?A = "NotIn [ClassS, Ch (Lat CHR ''@'')]"
  have part: "(u \<noteq> [] \<and> (\<forall>c\<in>set u. cset_matches ?A c)) \<longleftrightarrow> emailPart u" for u
    by (auto simp: emailPart_def)
  have "isValidEmail v \<longleftrightarrow>
          matchHere [Plus ?A, Lit (Lat CHR ''@''), Plus ?A, Lit (Lat CHR ''.''), Plus ?A, Eol] True v \<noteq> None"
    unfolding isValidEmail_def
    by (rule regex_test_anchored) (simp add: emailRegex_def)
  also have "\<dots> \<longleftrightarrow>
      (\<exists>l w1. v = l @ w1 \<and> emailPart l \<and>
        (\<exists>w2. w1 = Lat CHR ''@'' # w2 \<and>
          (\<exists>d w3. w2 = d @ w3 \<and> emailPart d \<and>
            (\<exists>w4. w3 = Lat CHR ''.'' # w4 \<and>
              (\<exists>t w5. w4 = t @ w5 \<and> emailPart t \<and> w5 = [])))))"
    unfolding accepts_Plus accepts_One accepts_Eol
    by (simp add: part [symmetric] conj_assoc)
  also have "\<dots> \<longleftrightarrow> emailShape v"
  proof
    assume "\<exists>l w1. v = l @ w1 \<and> emailPart l \<and>
        (\<exists>w2. w1 = Lat CHR ''@'' # w2 \<and>
          (\<exists>d w3. w2 = d @ w3 \<and> emailPart d \<and>
            (\<exists>w4. w3 = Lat CHR ''.'' # w4 \<and>
              (\<exists>t w5. w4 = t @ w5 \<and> emailPart t \<and> w5 = []))))"
    then obtain l d t where "v = l @ js ''@'' @ d @ js ''.'' @ t" "emailPart l" "emailPart d" "emailPart t"
      by auto
    then show "emailShape v"
      unfolding emailShape_def by blast
  next
    assume "emailShape v"
    then obtain l d t where v: "v = l @ js ''@'' @ d @ js ''.'' @ t"
      and parts: "emailPart l" "emailPart d" "emailPart t"
      unfolding emailShape_def by blast
    let ?w4 = "t @ []"
    let ?w3 = "Lat CHR ''.'' # ?w4"
    let ?w2 = "d @ ?w3"
    let ?w1 = "Lat CHR ''@'' # ?w2"
    have "v = l @ ?w1" using v by simp
    with parts show "\<exists>l w1. v = l @ w1 \<and> emailPart l \<and>
        (\<exists>w2. w1 = Lat CHR ''@'' # w2 \<and>
          (\<exists>d w3. w2 = d @ w3 \<and> emailPart d \<and>
            (\<exists>w4. w3 = Lat CHR ''.'' # w4 \<and>
              (\<exists>t w5. w4 = t @ w5 \<and> emailPart t \<and> w5 = []))))"
      by blast
  qed
  finally show ?thesis .
qed



subsection \<open>The two validators\<close>

lemma checkPlaceholder_append:
  "checkPlaceholder nN dN errs p = errs @ checkPlaceholder nN dN [] p"
  by (simp add: checkPlaceholder_def split: option.splits placeholder_type.splits)

lemma foldl_checkPlaceholder:
  "foldl (checkPlaceholder nN dN) errs ps = errs @ concat (map (checkPlaceholder nN dN []) ps)"
proof (induction ps arbitrary: errs)
  case Nil
  show ?case by simp
next
  case (Cons p ps)
  show ?case
    by (simp add: Cons [of "checkPlaceholder nN dN errs p"])
       (subst checkPlaceholder_append, simp)
qed

lemma checkPlaceholder_fieldErrors:
  "checkPlaceholder nN dN [] p = fieldErrors nN dN p"
  by (simp add: checkPlaceholder_def fieldErrors_def failsTypeCheck_def typeErrorText_def
      isValidDate_def isValidEmail_shape split: option.splits placeholder_type.splits)

lemma validatePlaceholders_errors:
  "errors (validatePlaceholders nN dN ps) = concat (map (fieldErrors nN dN) ps)"
  by (simp add: validatePlaceholders_def Let_def foldl_checkPlaceholder checkPlaceholder_fieldErrors [abs_def])

lemma validatePlaceholders_isValid:
  "isValid (validatePlaceholders nN dN ps) \<longleftrightarrow> errors (validatePlaceholders nN dN ps) = []"
  by (simp add: validatePlaceholders_def Let_def)

lemma checkForDownload_append:
  "checkForDownload nN dN errs p = errs @ checkForDownload nN dN [] p"
  by (simp add: checkForDownload_def split: option.splits placeholder_type.splits)

lemma foldl_checkForDownload:
  "foldl (checkForDownload nN dN) errs ps = errs @ concat (map (checkForDownload nN dN []) ps)"
proof (induction ps arbitrary: errs)
  case Nil
  show ?case by simp
next
  case (Cons p ps)
  show ?case
    by (simp add: Cons [of "checkForDownload nN dN errs p"])
       (subst checkForDownload_append, simp)
qed

lemma validateForDownload_isValid:
  "isValid (validateForDownload nN dN ps) \<longleftrightarrow>
     (\<forall>p\<in>set ps. \<not> (required p \<and> trimsToEmpty (p_value p)) \<and> checkForDownload nN dN [] p = [])"
  by (auto simp: validateForDownload_def Let_def foldl_checkForDownload filter_empty_conv
      isUnfilled_trimsToEmpty)

lemma validatePlaceholders_isValid_iff:
  "isValid (validatePlaceholders nN dN ps) \<longleftrightarrow> (\<forall>p\<in>set ps. checkPlaceholder nN dN [] p = [])"
  by (simp add: validatePlaceholders_def Let_def foldl_checkPlaceholder)

lemma check_implies_download:
  assumes "checkPlaceholder nN dN [] p = []"
  shows "\<not> (required p \<and> trimsToEmpty (p_value p)) \<and> checkForDownload nN dN [] p = []"
  using assms
  by (auto simp: checkPlaceholder_def checkForDownload_def
      split: option.splits placeholder_type.splits if_splits)

lemma download_implies_check:
  assumes "\<not> (required p \<and> trimsToEmpty (p_value p))" and "checkForDownload nN dN [] p = []"
    and "required p \<or> \<not> whitespaceOnly (p_value p)"
  shows "checkPlaceholder nN dN [] p = []"
  using assms
  by (auto simp: checkPlaceholder_def checkForDownload_def whitespaceOnly_def trimsToEmpty_def
      split: option.splits placeholder_type.splits if_splits)

subsection \<open>The heading patterns\<close>

lemma accepts_Star:
  "matchHere (Star cs # rest) atStart s \<noteq> None \<longleftrightarrow>
     (\<exists>u w. s = u @ w \<and> (\<forall>c\<in>set u. cset_matches cs c)
        \<and> matchHere rest (atStart \<and> u = []) w \<noteq> None)"
proof
  assume "matchHere (Star cs # rest) atStart s \<noteq> None"
  then obtain k where k: "k \<le> length (takeWhile (cset_matches cs) s)"
    and m: "matchHere rest (atStart \<and> k = 0) (drop k s) \<noteq> None"
    by (auto simp: backtrack_None_iff)
  from k have kl: "k \<le> length s" and all: "\<forall>c\<in>set (take k s). cset_matches cs c"
    by (simp_all add: takeWhile_length_iff)
  from kl have "(take k s = []) = (k = 0)" by (cases s) auto
  with m all have "s = take k s @ drop k s \<and> (\<forall>c\<in>set (take k s). cset_matches cs c)
      \<and> matchHere rest (atStart \<and> take k s = []) (drop k s) \<noteq> None"
    by simp
  then show "\<exists>u w. s = u @ w \<and> (\<forall>c\<in>set u. cset_matches cs c)
        \<and> matchHere rest (atStart \<and> u = []) w \<noteq> None"
    by blast
next
  assume "\<exists>u w. s = u @ w \<and> (\<forall>c\<in>set u. cset_matches cs c)
        \<and> matchHere rest (atStart \<and> u = []) w \<noteq> None"
  then obtain u w where s: "s = u @ w" and u: "\<forall>c\<in>set u. cset_matches cs c"
    and m: "matchHere rest (atStart \<and> u = []) w \<noteq> None"
    by blast
  have "length u \<le> length (takeWhile (cset_matches cs) s)"
    using s u by (simp add: takeWhile_length_iff)
  moreover have "matchHere rest (atStart \<and> length u = 0) (drop (length u) s) \<noteq> None"
    using s m by simp
  ultimately have "\<not> (\<forall>k. 0 \<le> k \<and> k \<le> length (takeWhile (cset_matches cs) s) \<longrightarrow>
      map_option (\<lambda>r. take k s # r) (matchHere rest (atStart \<and> k = 0) (drop k s)) = None)"
    by (metis le0 option.map_disc_iff)
  then show "matchHere (Star cs # rest) atStart s \<noteq> None"
    by (simp add: backtrack_None_iff)
qed

lemma allCaps_last:
  assumes "regex_test allCapsPattern t"
  shows "last t \<noteq> Lat CHR ''.''"
proof -
  let ?U = "In [Range (Lat CHR ''A'') (Lat CHR ''Z'')]"
  let ?US = "In [Range (Lat CHR ''A'') (Lat CHR ''Z''), ClassS]"
  have "atoms allCapsPattern = Bol # [One ?U, Plus ?US, Eol]"
    by (simp add: allCapsPattern_def)
  from regex_test_anchored [OF this] assms
  have "matchHere [One ?U, Plus ?US, Eol] True t \<noteq> None"
    by blast
  then obtain c u where t: "t = c # u" and u: "u \<noteq> []" "\<forall>x\<in>set u. cset_matches ?US x"
    unfolding accepts_One accepts_Plus accepts_Eol by auto
  from u have "cset_matches ?US (last u)" by simp
  moreover have "\<not> cset_matches ?US (Lat CHR ''.'')"
    by (simp add: inRange_def isWhiteSpace_def)
  ultimately have "last u \<noteq> Lat CHR ''.''" by metis
  with t u(1) show ?thesis by simp
qed

lemma titleColon_last:
  assumes "regex_test titleColonPattern t"
  shows "last t \<noteq> Lat CHR ''.''"
proof -
  let ?U = "In [Range (Lat CHR ''A'') (Lat CHR ''Z'')]"
  let ?L = "In [Range (Lat CHR ''a'') (Lat CHR ''z'')]"
  have "atoms titleColonPattern = Bol # [One ?U, Plus ?L, Lit (Lat CHR '':''), Eol]"
    by (simp add: titleColonPattern_def)
  from regex_test_anchored [OF this] assms
  have "matchHere [One ?U, Plus ?L, Lit (Lat CHR '':''), Eol] True t \<noteq> None"
    by blast
  then obtain c u where "t = c # u @ js '':''"
    unfolding accepts_One accepts_Plus accepts_Eol by auto
  then show ?thesis by simp
qed

lemma capitalNoPeriod_last:
  assumes "regex_test capitalNoPeriodPattern t"
  shows "last t \<noteq> Lat CHR ''.''"
proof -
  let ?U = "In [Range (Lat CHR ''A'') (Lat CHR ''Z'')]"
  have "atoms capitalNoPeriodPattern = Bol # [One ?U, Star Dot, One (NotIn [Ch (Lat CHR ''.'')]), Eol]"
    by (simp add: capitalNoPeriodPattern_def)
  from regex_test_anchored [OF this] assms
  have "matchHere [One ?U, Star Dot, One (NotIn [Ch (Lat CHR ''.'')]), Eol] True t \<noteq> None"
    by blast
  then obtain c u d where "t = c # u @ [d]" "d \<noteq> Lat CHR ''.''"
    unfolding accepts_One accepts_Star accepts_Eol by auto
  then show ?thesis by simp
qed

lemma sentence_is_body:
  assumes "last (str_trim line) = Lat CHR ''.''"
    and "\<not> regex_test numberedPattern (str_trim line)"
  shows "\<not> isHeading line"
  using assms allCaps_last titleColon_last capitalNoPeriod_last
  by (auto simp: isHeading_def headingPatterns_def)

subsection \<open>One placeholder for each token\<close>






subsection \<open>Each placeholder comes from a match of the text\<close>







subsection \<open>Filling with values that have no dollar sign\<close>

lemma fillOne_fillLiterally:
  assumes "\<And>v. p_value p = Some v \<Longrightarrow> Lat CHR ''$'' \<notin> set v"
  shows "fillOne content p = Some (fillLiterally content p)"
proof (cases "p_value p")
  case None
  then show ?thesis by (simp add: fillOne_skips fillLiterally_def)
next
  case (Some v)
  show ?thesis
  proof (cases "v = []")
    case True
    with Some show ?thesis by (simp add: fillOne_skips fillLiterally_def)
  next
    case False
    with Some assms [OF Some] show ?thesis
      by (simp add: fillOne_literal fillLiterally_def)
  qed
qed

lemma fillPlaceholders_literal:
  assumes "\<And>p v. p \<in> set ps \<Longrightarrow> p_value p = Some v \<Longrightarrow> Lat CHR ''$'' \<notin> set v"
  shows "fillPlaceholders content ps = Some (foldl fillLiterally content ps)"
  using assms
proof (induction ps arbitrary: content)
  case Nil
  show ?case by simp
next
  case (Cons p ps)
  have "fillOne content p = Some (fillLiterally content p)"
  proof (rule fillOne_fillLiterally)
    fix v
    assume "p_value p = Some v"
    then show "Lat CHR ''$'' \<notin> set v"
      using Cons.prems [of p v] by simp
  qed
  moreover have "fillPlaceholders (fillLiterally content p) ps
      = Some (foldl fillLiterally (fillLiterally content p) ps)"
  proof (rule Cons.IH)
    fix q v
    assume "q \<in> set ps" and "p_value q = Some v"
    then show "Lat CHR ''$'' \<notin> set v"
      using Cons.prems [of q v] by simp
  qed
  ultimately show ?case by simp
qed

subsection \<open>The claims on extractPlaceholders\<close>

text \<open>
  C1, at its example. For the content \<open>{{x}} and {{x}} again\<close> the scan creates two
  placeholders, not one: the double-brace pattern finds the token \<open>x\<close> twice and keeps
  it once, and the single-brace pattern then matches \<open>{{x}\<close> and adds a placeholder for
  the token \<open>{x\<close>. Filling the content with the first one at value \<open>Y\<close> gives
  \<open>Y and Y again\<close>. The general part of the claim, one Placeholder for each token up
  to case, is \<open>detectPlaceholders_one_per_token\<close> above.
\<close>

theorem extractPlaceholders_duplicate_example:
  "map_option (map (\<lambda>p. (label p, originalText p))) (detectPlaceholders ids (js ''{{x}} and {{x}} again''))
     = Some [(js ''X'', js ''{{x}}''), (js ''{x'', js ''{{x}'')]
   \<and> map_option length (extractPlaceholders lc ids (js ''{{x}} and {{x}} again'')) = Some 2
   \<and> fillPlaceholders (js ''{{x}} and {{x}} again'')
         [(createPlaceholder (ids 0) (js ''x'') (js ''{{x}}''))\<lparr>p_value := Some (js ''Y'')\<rparr>,
          createPlaceholder (ids 1) (js ''{x'') (js ''{{x}'')]
       = Some (js ''Y and Y again'')"
proof -
  let ?c = "js ''{{x}} and {{x}} again''"
  have d: "map_option (map (\<lambda>p. (label p, originalText p))) (detectPlaceholders ids ?c)
             = Some [(js ''X'', js ''{{x}}''), (js ''{x'', js ''{{x}'')]"
    by code_simp
  then obtain ps where ps: "detectPlaceholders ids ?c = Some ps" and "length ps = 2"
    by (cases "detectPlaceholders ids ?c") auto
  then have e: "map_option length (extractPlaceholders lc ids ?c) = Some 2"
    by (simp add: extractPlaceholders_def length_array_sort)
  have f: "fillPlaceholders ?c
         [(createPlaceholder (ids 0) (js ''x'') (js ''{{x}}''))\<lparr>p_value := Some (js ''Y'')\<rparr>,
          createPlaceholder (ids 1) (js ''{x'') (js ''{{x}'')]
       = Some (js ''Y and Y again'')"
    by code_simp
  from d e f show ?thesis by blast
qed

text \<open>
  C5. Extraction is deterministic up to the identifiers: two runs on the same text, with
  whatever identifiers \<open>generateId\<close> hands out in each, both return, and return lists of
  the same length that agree field by field on label, originalText, value, type, required
  and description.
\<close>

theorem extractPlaceholders_deterministic:
  "\<exists>ps qs. extractPlaceholders lc ids content = Some ps
         \<and> extractPlaceholders lc ids' content = Some qs
         \<and> length ps = length qs
         \<and> map withoutId ps = map withoutId qs"
proof -
  obtain ps qs where ps: "extractPlaceholders lc ids content = Some ps"
    and qs: "extractPlaceholders lc ids' content = Some qs"
    using extractPlaceholders_returns by blast
  with extractPlaceholders_sameButIds [of lc ids content ids']
  have eq: "map withoutId ps = map withoutId qs" by simp
  then have "length ps = length qs" by (rule map_eq_imp_length_eq)
  with ps qs eq show ?thesis by blast
qed

text \<open>
  C6. The list that extraction returns is in ascending order of label, for the order of
  the comparison that the code hands to \<open>sort\<close>: \<open>a.label.localeCompare(b.label)\<close>, the
  collation of the host, taken as a total preorder. It holds the placeholders of the
  scan, in this order and not in the order of their detection.
\<close>

theorem extractPlaceholders_sorted:
  assumes "\<And>a b. lc a b \<le> 0 \<or> lc b a \<le> 0"
    and "\<And>a b c. lc a b \<le> 0 \<Longrightarrow> lc b c \<le> 0 \<Longrightarrow> lc a c \<le> 0"
  shows "\<exists>ds ps. detectPlaceholders ids content = Some ds
           \<and> extractPlaceholders lc ids content = Some ps
           \<and> sorted_wrt (\<lambda>p q. lc (label p) (label q) \<le> 0) ps
           \<and> set ps = set ds \<and> length ps = length ds"
proof -
  let ?cmp = "\<lambda>a b. lc (label a) (label b)"
  obtain ds where ds: "detectPlaceholders ids content = Some ds"
    using detectPlaceholders_returns by blast
  then have ps: "extractPlaceholders lc ids content = Some (array_sort ?cmp ds)"
    by (simp add: extractPlaceholders_def)
  have "sorted_wrt (\<lambda>p q. ?cmp p q \<le> 0) (array_sort ?cmp ds)"
  proof (rule sorted_array_sort)
    show "?cmp a b \<le> 0 \<or> ?cmp b a \<le> 0" for a b
      using assms(1) .
    show "?cmp a c \<le> 0" if "?cmp a b \<le> 0" "?cmp b c \<le> 0" for a b c
      using assms(2) that .
  qed
  with ds ps show ?thesis
    by (simp add: set_array_sort length_array_sort)
qed

theorem extractPlaceholders_sorted_witness:
  "\<exists>ds ps. detectPlaceholders sampleIds (js ''{{zeta}} then <<alpha>>'') = Some ds
         \<and> extractPlaceholders codeUnitCompare sampleIds (js ''{{zeta}} then <<alpha>>'') = Some ps
         \<and> sorted_wrt (\<lambda>p q. codeUnitCompare (label p) (label q) \<le> 0) ps
         \<and> set ps = set ds \<and> length ps = length ds"
proof (rule extractPlaceholders_sorted)
  show "codeUnitCompare a b \<le> 0 \<or> codeUnitCompare b a \<le> 0" for a b
    by (auto simp: codeUnitCompare_def)
  show "codeUnitCompare a c \<le> 0" if "codeUnitCompare a b \<le> 0" "codeUnitCompare b c \<le> 0" for a b c
    using that by (auto simp: codeUnitCompare_def split: if_splits)
qed

lemma extractPlaceholders_sorted_run:
  "map_option (map label) (detectPlaceholders sampleIds (js ''{{zeta}} then <<alpha>>''))
     = Some [js ''Zeta'', js ''Alpha'', js ''{zeta'']
   \<and> map_option (map label) (extractPlaceholders codeUnitCompare sampleIds (js ''{{zeta}} then <<alpha>>''))
     = Some [js ''Alpha'', js ''Zeta'', js ''{zeta'']"
  by code_simp




text \<open>The rules of the type inference at work, the dead \<open>e-mail\<close> alternative among them.\<close>

lemma type_examples:
  "map_option (map (\<lambda>p. (label p, p_type p, required p)))
     (detectPlaceholders ids (js ''<<effective_date>> <<contact email>> <<Total-Amount>> <<middle_name_optional>> <<e-mail>>''))
   = Some [(js ''Effective Date'', DateField, True), (js ''Contact Email'', EmailField, True),
           (js ''Total Amount'', NumberField, True), (js ''Middle Name Optional'', TextField, False),
           (js ''E Mail'', TextField, True)]"
  by code_simp

text \<open>
  Labels beyond ASCII: the letter 0xE9 is capitalized to 0xC9, the sharp s 0xDF to \<open>SS\<close>, and
  the capitals 0xC9 and 0xD6 inside a word are put in lower case.
\<close>

lemma latin1_label_examples:
  "map_option (map (\<lambda>p. (label p, p_type p)))
     (detectPlaceholders ids
        (js ''<<'' @ [Lat CHR 0xE9] @ js ''t'' @ [Lat CHR 0xC9] @ js ''_date>> <<''
           @ [Lat CHR 0xDF] @ js ''_K'' @ [Lat CHR 0xD6] @ js ''LN>>''))
   = Some [([Lat CHR 0xC9] @ js ''t'' @ [Lat CHR 0xE9] @ js '' Date'', DateField),
           (js ''SS K'' @ [Lat CHR 0xF6] @ js ''ln'', TextField)]"
  by code_simp

subsection \<open>The claims on validation\<close>

text \<open>
  C9, as amended. Every list that validatePlaceholders accepts is accepted by
  validateForDownload, and the two verdicts are the same on every list in which no
  optional placeholder has a value that is white space only.
\<close>

theorem validators_agreement:
  "(isValid (validatePlaceholders nN dN ps) \<longrightarrow> isValid (validateForDownload nN dN ps))
   \<and> ((\<forall>p\<in>set ps. required p \<or> \<not> whitespaceOnly (p_value p)) \<longrightarrow>
        isValid (validatePlaceholders nN dN ps) = isValid (validateForDownload nN dN ps))"
  unfolding validatePlaceholders_isValid_iff validateForDownload_isValid
  using check_implies_download download_implies_check by blast

text \<open>A required email field with a well-formed value: both hypotheses hold.\<close>

theorem validators_agreement_witness:
  "\<forall>nN dN. isValid (validatePlaceholders nN dN [sampleField (js ''email'') EmailField True (Some (js ''a@b.co''))])
         \<and> isValid (validateForDownload nN dN [sampleField (js ''email'') EmailField True (Some (js ''a@b.co''))])
         \<and> (\<forall>p\<in>set [sampleField (js ''email'') EmailField True (Some (js ''a@b.co''))].
               required p \<or> \<not> whitespaceOnly (p_value p))"
proof (intro allI)
  fix nN dN :: "jstring \<Rightarrow> bool"
  let ?ps = "[sampleField (js ''email'') EmailField True (Some (js ''a@b.co''))]"
  have v: "isValid (validatePlaceholders nN dN ?ps)"
    by code_simp
  have h: "\<forall>p\<in>set ?ps. required p \<or> \<not> whitespaceOnly (p_value p)"
    by (simp add: sampleField_def)
  from validators_agreement [of nN dN ?ps] v h
  show "isValid (validatePlaceholders nN dN ?ps) \<and> isValid (validateForDownload nN dN ?ps)
         \<and> (\<forall>p\<in>set ?ps. required p \<or> \<not> whitespaceOnly (p_value p))"
    by blast
qed

text \<open>
  C9, as stated: an optional email field whose value is one space passes the download
  check, which trims the value before the type check, and fails validatePlaceholders,
  which checks the type of every value that is not the empty string.
\<close>

theorem validators_disagree_counterexample:
  "\<forall>nN dN. isValid (validateForDownload nN dN [sampleField (js ''email'') EmailField False (Some (js '' ''))])
         \<and> \<not> isValid (validatePlaceholders nN dN [sampleField (js ''email'') EmailField False (Some (js '' ''))])"
proof (intro allI)
  fix nN dN :: "jstring \<Rightarrow> bool"
  have email: "\<not> isValidEmail (js '' '')"
    by code_simp
  have blank: "str_trim (js '' '') = []"
    by code_simp
  show "isValid (validateForDownload nN dN [sampleField (js ''email'') EmailField False (Some (js '' ''))])
         \<and> \<not> isValid (validatePlaceholders nN dN [sampleField (js ''email'') EmailField False (Some (js '' ''))])"
    by (simp add: validateForDownload_isValid validatePlaceholders_isValid_iff sampleField_def
        checkForDownload_def checkPlaceholder_def trimsToEmpty_def
        email [simplified] blank [simplified])
qed

text \<open>
  C4, as amended. validatePlaceholders collects the errors of all fields, in the order of
  the fields and without stopping at the first one. A field gives the completeness error,
  which names its label, when it is required and its value is absent, empty or white
  space only; otherwise it gives the type error when its value is not the empty string and
  fails the check of its type (an email has the shape \<open>local@domain.tld\<close> without white
  space, a number is what \<open>Number\<close> parses, a date is what the host's \<open>Date\<close> parses).
  A field never gives both. \<open>isValid\<close> is true exactly when the list of errors is empty.
  An email field with the value \<open>not-an-email\<close> gives one type error, with \<open>a@b.co\<close> none.
\<close>

theorem validatePlaceholders_accumulates:
  "errors (validatePlaceholders nN dN ps) = concat (map (fieldErrors nN dN) ps)
   \<and> isValid (validatePlaceholders nN dN ps) = (errors (validatePlaceholders nN dN ps) = [])
   \<and> length (fieldErrors nN dN p) \<le> 1
   \<and> errors (validatePlaceholders nN dN [sampleField (js ''email'') EmailField True (Some (js ''not-an-email''))])
       = [js ''email must be a valid email address'']
   \<and> errors (validatePlaceholders nN dN [sampleField (js ''email'') EmailField True (Some (js ''a@b.co''))]) = []
   \<and> errors (validatePlaceholders nN dN [sampleField (js ''name'') TextField True (Some [])])
       = [js ''name is required'']"
proof -
  have one: "length (fieldErrors nN dN p) \<le> 1"
    by (simp add: fieldErrors_def)
  have ex: "errors (validatePlaceholders nN dN [sampleField (js ''email'') EmailField True (Some (js ''not-an-email''))])
       = [js ''email must be a valid email address'']"
    "errors (validatePlaceholders nN dN [sampleField (js ''email'') EmailField True (Some (js ''a@b.co''))]) = []"
    "errors (validatePlaceholders nN dN [sampleField (js ''name'') TextField True (Some [])])
       = [js ''name is required'']"
    by code_simp+
  from validatePlaceholders_errors [of nN dN ps] validatePlaceholders_isValid [of nN dN ps] one ex
  show ?thesis by blast
qed

text \<open>Three fields, two of them in error: both errors are reported, in order.\<close>

theorem validatePlaceholders_accumulates_witness:
  "\<forall>nN dN.
     concat (map (fieldErrors nN dN)
       [sampleField (js ''name'') TextField True None,
        sampleField (js ''email'') EmailField False (Some (js ''not-an-email'')),
        sampleField (js ''city'') TextField True (Some (js ''Paris''))])
     = [js ''name is required'', js ''email must be a valid email address'']
     \<and> \<not> isValid (validatePlaceholders nN dN
       [sampleField (js ''name'') TextField True None,
        sampleField (js ''email'') EmailField False (Some (js ''not-an-email'')),
        sampleField (js ''city'') TextField True (Some (js ''Paris''))])"
proof (intro allI)
  fix nN dN :: "jstring \<Rightarrow> bool"
  let ?ps = "[sampleField (js ''name'') TextField True None,
        sampleField (js ''email'') EmailField False (Some (js ''not-an-email'')),
        sampleField (js ''city'') TextField True (Some (js ''Paris''))]"
  have run: "errors (validatePlaceholders nN dN ?ps)
      = [js ''name is required'', js ''email must be a valid email address'']"
    by code_simp
  with validatePlaceholders_accumulates [of nN dN ?ps]
  show "concat (map (fieldErrors nN dN) ?ps)
          = [js ''name is required'', js ''email must be a valid email address'']
        \<and> \<not> isValid (validatePlaceholders nN dN ?ps)"
    by simp
qed

text \<open>
  C4, as stated: a required email field whose value is one space has a value that is not
  empty and fails the email check, yet it gives the completeness error only, because that
  branch of the loop body ends with \<open>return\<close>. The same value in an optional field does
  give the type error: for the type check a value of white space is not empty.
\<close>

theorem required_blank_email_counterexample:
  "\<forall>nN dN. (js '' '') \<noteq> ([] :: jstring) \<and> \<not> isValidEmail (js '' '')
     \<and> errors (validatePlaceholders nN dN [sampleField (js ''email'') EmailField True (Some (js '' ''))])
         = [js ''email is required'']
     \<and> errors (validatePlaceholders nN dN [sampleField (js ''email'') EmailField False (Some (js '' ''))])
         = [js ''email must be a valid email address'']"
proof (intro allI)
  fix nN dN :: "jstring \<Rightarrow> bool"
  show "js '' '' \<noteq> ([] :: jstring) \<and> \<not> isValidEmail (js '' '')
     \<and> errors (validatePlaceholders nN dN [sampleField (js ''email'') EmailField True (Some (js '' ''))])
         = [js ''email is required'']
     \<and> errors (validatePlaceholders nN dN [sampleField (js ''email'') EmailField False (Some (js '' ''))])
         = [js ''email must be a valid email address'']"
    by code_simp
qed

subsection \<open>The claims on filling and highlighting\<close>

text \<open>
  C2, at a value with a dollar sign. The pattern is escaped, the replacement is not:
  \<open>String.prototype.replace\<close> reads \<open>$$\<close> in the value as one dollar sign and \<open>$&\<close> as
  the matched text, so the value \<open>$$100\<close> is filled in as \<open>$100\<close> and the value \<open>$&\<close>
  leaves the token in place.
\<close>

theorem fillPlaceholders_dollar_example:
  "fillPlaceholders (js ''Fee: {{amount}} due'') [sampleField (js ''amount'') NumberField True (Some (js ''$$100''))]
     = Some (js ''Fee: $100 due'')
   \<and> fillPlaceholders (js ''Fee: {{amount}} due'') [sampleField (js ''amount'') NumberField True (Some (js ''$&''))]
     = Some (js ''Fee: {{amount}} due'')"
  by code_simp

text \<open>
  The rest of C2 on the code: the example of the claim and its second filling. For values
  without a dollar sign the general statement is \<open>fillPlaceholders_literal\<close> above, and
  \<open>newRegExp_escaped\<close> is the escaping of the pattern.
\<close>

lemma fillPlaceholders_example:
  "fillPlaceholders (js ''Hello {{name}}, total {{amount}}'')
     [sampleField (js ''name'') TextField True (Some (js ''Alice'')),
      sampleField (js ''amount'') NumberField True (Some (js ''10''))]
     = Some (js ''Hello Alice, total 10'')
   \<and> fillPlaceholders (js ''Hello Alice, total 10'')
     [sampleField (js ''name'') TextField True (Some (js ''Alice'')),
      sampleField (js ''amount'') NumberField True (Some (js ''10''))]
     = Some (js ''Hello Alice, total 10'')"
  by code_simp


text \<open>
  The marker takes the label as a replacement text: a label with a replacement pattern is
  not shown as it is. Here the label \<open>Fee in $&\<close> shows as \<open>Fee in {{x}}\<close>.
\<close>

lemma highlight_label_pattern_example:
  "highlightUnfilledPlaceholders
     [(sampleField (js ''x'') TextField True None)\<lparr>label := js ''Fee in $&''\<rparr>] (js ''a {{x}} b'')
     = Some (js ''a '' @ markedText (js ''Fee in {{x}}'') (js ''{{x}}'') @ js '' b'')"
  by code_simp



text \<open>
  The marker can still show for such a value, when filling itself writes the token anew:
  in \<open>{{{{ x}}x}}\<close> the token \<open>{{ x}}\<close> is replaced by one space, which leaves \<open>{{ x}}\<close>.
\<close>

lemma whitespace_value_marked_example:
  "displayContent [sampleField (js '' x'') TextField True (Some (js '' ''))]
     (updatePreview (js ''{{{{ x}}x}}'') [sampleField (js '' x'') TextField True (Some (js '' ''))]
        initialPreview)
     = Some (markedText (js '' x'') (js ''{{ x}}''))"
  by code_simp

subsection \<open>The claim on the renderer\<close>

text \<open>
  C7. The line \<open>SECTION ONE\<close> is a heading of level 1 and the line \<open>1. Parties\<close> a
  heading of level 2; a line that ends with a period and does not start with a number, a
  period and a white space is a body paragraph. The sizes are 16pt, 14pt and 13pt for the
  levels 1, 2 and 3 and 12pt for the body (the model has the half-points of the docx
  library), and a paragraph is bold exactly when it is a heading.
\<close>

theorem heading_heuristic:
  "isHeading (js ''SECTION ONE'') \<and> getHeadingLevel (js ''SECTION ONE'') = HEADING_1
   \<and> isHeading (js ''1. Parties'') \<and> getHeadingLevel (js ''1. Parties'') = HEADING_2
   \<and> \<not> isHeading (js ''This agreement is made today.'')
   \<and> (last (str_trim line) = Lat CHR ''.'' \<and> \<not> regex_test numberedPattern (str_trim line)
        \<longrightarrow> \<not> isHeading line)
   \<and> getHeadingSize HEADING_1 = 2 * 16 \<and> getHeadingSize HEADING_2 = 2 * 14
   \<and> getHeadingSize HEADING_3 = 2 * 13
   \<and> bold (makeParagraph line) = isHeading line
   \<and> run_size (makeParagraph line)
        = (if isHeading line then getHeadingSize (getHeadingLevel line) else 2 * 12)
   \<and> parseTextToParagraphs sampleText
        = [\<lparr>run_text = js ''SECTION ONE'', bold = True, run_size = 32,
             heading = Some HEADING_1, spacing_after = 200\<rparr>,
           \<lparr>run_text = js ''1. Parties'', bold = True, run_size = 28,
             heading = Some HEADING_2, spacing_after = 200\<rparr>,
           \<lparr>run_text = js ''This agreement is made today.'', bold = False, run_size = 24,
             heading = None, spacing_after = 200\<rparr>]"
proof -
  have lines: "isHeading (js ''SECTION ONE'') \<and> getHeadingLevel (js ''SECTION ONE'') = HEADING_1
      \<and> isHeading (js ''1. Parties'') \<and> getHeadingLevel (js ''1. Parties'') = HEADING_2
      \<and> \<not> isHeading (js ''This agreement is made today.'')"
    by code_simp
  have sizes: "getHeadingSize HEADING_1 = 2 * 16 \<and> getHeadingSize HEADING_2 = 2 * 14
      \<and> getHeadingSize HEADING_3 = 2 * 13"
    by simp
  have para: "bold (makeParagraph line) = isHeading line
      \<and> run_size (makeParagraph line)
          = (if isHeading line then getHeadingSize (getHeadingLevel line) else 2 * 12)"
    by (simp add: makeParagraph_def)
  have run: "parseTextToParagraphs sampleText
        = [\<lparr>run_text = js ''SECTION ONE'', bold = True, run_size = 32,
             heading = Some HEADING_1, spacing_after = 200\<rparr>,
           \<lparr>run_text = js ''1. Parties'', bold = True, run_size = 28,
             heading = Some HEADING_2, spacing_after = 200\<rparr>,
           \<lparr>run_text = js ''This agreement is made today.'', bold = False, run_size = 24,
             heading = None, spacing_after = 200\<rparr>]"
    by code_simp
  from lines sizes para run sentence_is_body [of line] show ?thesis
    by blast
qed

text \<open>A sentence of a contract satisfies the hypothesis and is a body paragraph.\<close>

theorem heading_heuristic_witness:
  "last (str_trim (js ''The parties agree as follows.'')) = Lat CHR ''.''
   \<and> \<not> regex_test numberedPattern (str_trim (js ''The parties agree as follows.''))
   \<and> \<not> isHeading (js ''The parties agree as follows.'')
   \<and> run_size (makeParagraph (js ''The parties agree as follows.'')) = 24
   \<and> \<not> bold (makeParagraph (js ''The parties agree as follows.''))"
proof -
  have h: "last (str_trim (js ''The parties agree as follows.'')) = Lat CHR ''.''"
    "\<not> regex_test numberedPattern (str_trim (js ''The parties agree as follows.''))"
    by code_simp+
  with heading_heuristic [of "js ''The parties agree as follows.''"] show ?thesis
    by simp
qed

subsection \<open>The claim on the upload check\<close>

text \<open>
  C8. For every file, validateDocumentUpload answers \<open>isValid = true\<close> exactly when the
  MIME type is one of the two Word types, the size is at most 10 MB (10 * 1024 * 1024
  bytes) and the file name has at most 255 code units; every violated condition
  contributes one error to the list.
\<close>

theorem validateDocumentUpload_verdict:
  "isValid (validateDocumentUpload (Some f)) =
     ((f_type f = js ''application/vnd.openxmlformats-officedocument.wordprocessingml.document''
        \<or> f_type f = js ''application/msword'')
      \<and> f_size f \<le> 10 * 1024 * 1024
      \<and> length (f_name f) \<le> 255)
   \<and> errors (validateDocumentUpload (Some f)) =
       (if f_size f \<le> 10 * 1024 * 1024 then [] else [js ''File size exceeds 10MB limit''])
       @ (if f_type f = js ''application/vnd.openxmlformats-officedocument.wordprocessingml.document''
             \<or> f_type f = js ''application/msword''
          then [] else [js ''Only .docx and .doc files are supported''])
       @ (if length (f_name f) \<le> 255 then [] else [js ''Filename is too long''])"
  by (simp add: validateDocumentUpload_def maxSize_def allowedTypes_def Let_def)


end
